theory Spec2Isabelle
  imports Complex_Main "HOL-Library.AList" "HOL-Library.Char_ord" "HOL-Library.List_Lexorder"
begin

section \<open>Data model\<close>

text \<open>
  Numbers (quantities, prices, commissions, money) are exact rationals. Dates have day
  granularity and are day numbers. A Python exception is a value of type \<open>error\<close>;
  a function that can raise returns \<open>error + 'a\<close>, with \<open>Inl\<close> for the exception.
\<close>

datatype TradeType = Open | Close

record Trade =
  Code :: string
  Date :: int
  Quantity :: rat
  Price :: rat
  Commission :: rat
  tradetype :: TradeType

text \<open>
  \<open>NoMatch\<close> is the bare \<^verbatim>\<open>Exception()\<close> of \<^verbatim>\<open>match_for_group\<close> together with what the two
  \<^verbatim>\<open>print\<close> calls before it wrote: the unmatched quantity as \<^verbatim>\<open>%d\<close> formats it, and the
  closing trade.
\<close>

datatype error =
    AssertionError
  | IndexError
  | ArithmeticError
  | ZeroDivisionError
  | AttributeError
  | NoMatch int Trade

text \<open>A float result that may be numpy's not-a-number.\<close>

datatype number = NaN | Val rat

text \<open>
  The ten fields of the tuple that \<^verbatim>\<open>group_display_taxes\<close> returns, named as
  \<^verbatim>\<open>display_summary_tax\<close> unpacks them; index 5 is the commission, index 8 the absolute
  quantity, index 9 the net profit.
\<close>

record taxtuple =
  gbp_disposal_proceeds :: rat
  gbp_allowable_costs :: rat
  gbp_gains :: rat
  gbp_losses :: rat
  number_disposals :: rat
  gbp_commissions :: rat
  gbp_taxes :: rat
  gbp_gross_profit :: rat
  abs_quantity :: rat
  gbp_net_profit :: rat

record TaxCalcTradeGroup =
  closing_trade :: Trade
  same_day :: "Trade list"
  within_month :: "Trade list"
  s104 :: "Trade list"

text \<open>
  \<^verbatim>\<open>matched\<close> is a Python dict from sequence number to group: an association list in
  insertion order, written with \<^const>\<open>AList.update\<close> and read with \<^const>\<open>map_of\<close>.
\<close>

record TaxCalcElement =
  matched :: "(int \<times> TaxCalcTradeGroup) list"
  unmatched :: "Trade list"

text \<open>
  \<^verbatim>\<open>TaxCalcTradeGroup.group_display_taxes(taxyear, CGTCalc, reportinglevel, groupid)\<close>
  lives outside the two source files; the functions that call it take it as a parameter.
\<close>

type_synonym group_display_taxes =
  "TaxCalcTradeGroup \<Rightarrow> int \<Rightarrow> bool \<Rightarrow> string \<Rightarrow> int \<Rightarrow> taxtuple"

section \<open>Construction of a per-code element\<close>

text \<open>
  Modelled from the spec: \<^verbatim>\<open>TradeList.check_same_code\<close> (tradelist.py is not among the
  sources). The spec's ledger invariant is that all trades share one code.
\<close>

fun check_same_code :: "Trade list \<Rightarrow> bool" where
  "check_same_code [] = True"
| "check_same_code (t # ts) = list_all (\<lambda>u. Code u = Code t) ts"

text \<open>
  \<^verbatim>\<open>TaxCalcElement.__init__\<close>: the type assertion holds by typing; the second assertion
  is the same-code check; then \<^verbatim>\<open>matched = {}\<close> and \<^verbatim>\<open>unmatched = trade_list\<close>.
\<close>

definition TaxCalcElement_init :: "Trade list \<Rightarrow> error + TaxCalcElement" where
  "TaxCalcElement_init trade_list =
     (if check_same_code trade_list
      then Inr \<lparr>matched = [], unmatched = trade_list\<rparr>
      else Inl AssertionError)"

section \<open>Per-code reports\<close>

text \<open>
  Modelled from the spec: \<^verbatim>\<open>zero_tax_tuple\<close> of taxcalctradegroup.py, "the defined
  all-zero tuple".
\<close>

definition zero_tax_tuple :: taxtuple where
  "zero_tax_tuple =
     \<lparr>gbp_disposal_proceeds = 0, gbp_allowable_costs = 0, gbp_gains = 0, gbp_losses = 0,
      number_disposals = 0, gbp_commissions = 0, gbp_taxes = 0, gbp_gross_profit = 0,
      abs_quantity = 0, gbp_net_profit = 0\<rparr>"

definition tuple_add :: "taxtuple \<Rightarrow> taxtuple \<Rightarrow> taxtuple" where
  "tuple_add a b =
     \<lparr>gbp_disposal_proceeds = gbp_disposal_proceeds a + gbp_disposal_proceeds b,
      gbp_allowable_costs = gbp_allowable_costs a + gbp_allowable_costs b,
      gbp_gains = gbp_gains a + gbp_gains b,
      gbp_losses = gbp_losses a + gbp_losses b,
      number_disposals = number_disposals a + number_disposals b,
      gbp_commissions = gbp_commissions a + gbp_commissions b,
      gbp_taxes = gbp_taxes a + gbp_taxes b,
      gbp_gross_profit = gbp_gross_profit a + gbp_gross_profit b,
      abs_quantity = abs_quantity a + abs_quantity b,
      gbp_net_profit = gbp_net_profit a + gbp_net_profit b\<rparr>"

text \<open>\<^verbatim>\<open>map(sum, zip(*taxdata))\<close>: the field-wise sums, each starting from 0.\<close>

fun sum_taxdata :: "taxtuple list \<Rightarrow> taxtuple" where
  "sum_taxdata [] = zero_tax_tuple"
| "sum_taxdata (x # xs) = tuple_add x (sum_taxdata xs)"

text \<open>
  \<^verbatim>\<open>groupidlist = list(self.matched.keys()); groupidlist.sort()\<close> and the list of the
  groups' tuples in that order. Each group id is a key of the dict, so \<^verbatim>\<open>self.matched[groupid]\<close>
  never raises.
\<close>

definition taxdata_of ::
  "group_display_taxes \<Rightarrow> TaxCalcElement \<Rightarrow> int \<Rightarrow> bool \<Rightarrow> string \<Rightarrow> taxtuple list" where
  "taxdata_of gdt e taxyear CGTCalc reportinglevel =
     map (\<lambda>groupid. gdt (the (map_of (matched e) groupid)) taxyear CGTCalc reportinglevel groupid)
         (sort (map fst (matched e)))"

text \<open>
  \<^verbatim>\<open>display_taxes_for_code\<close>. The closing assertion compares the number of fields with
  that of \<^verbatim>\<open>zero_tax_tuple\<close>; both are ten here by typing.
\<close>

definition display_taxes_for_code ::
  "group_display_taxes \<Rightarrow> TaxCalcElement \<Rightarrow> int \<Rightarrow> bool \<Rightarrow> string \<Rightarrow> taxtuple" where
  "display_taxes_for_code gdt e taxyear CGTCalc reportinglevel =
     (let taxdata = taxdata_of gdt e taxyear CGTCalc reportinglevel
      in if length taxdata = 0 then zero_tax_tuple else sum_taxdata taxdata)"

text \<open>Python's \<^verbatim>\<open>/\<close> on floats raises on a zero divisor.\<close>

definition py_div :: "rat \<Rightarrow> rat \<Rightarrow> error + rat" where
  "py_div a b = (if b = 0 then Inl ZeroDivisionError else Inr (a / b))"

text \<open>\<^verbatim>\<open>TaxCalcElement.average_commission\<close>.\<close>

definition average_commission ::
  "group_display_taxes \<Rightarrow> TaxCalcElement \<Rightarrow> int \<Rightarrow> error + number" where
  "average_commission gdt e taxyear =
     (let taxdata = taxdata_of gdt e taxyear True [];
          commissions = map gbp_commissions taxdata;
          quants = map abs_quantity taxdata;
          total_comm = sum_list commissions;
          total_quant = sum_list quants
      in if total_quant = 0
         then (if total_comm = 0 then Inr NaN else Inr (Val 0))
         else (case py_div total_comm (2 * total_quant) of
                 Inl err \<Rightarrow> Inl err
               | Inr q \<Rightarrow> Inr (Val q)))"

section \<open>Win and loss statistics\<close>

text \<open>\<^verbatim>\<open>np.mean\<close>: not-a-number on an empty list, the arithmetic mean otherwise.\<close>

definition np_mean :: "rat list \<Rightarrow> number" where
  "np_mean xs = (if xs = [] then NaN else Val (sum_list xs / of_nat (length xs)))"

text \<open>
  \<^verbatim>\<open>TaxCalcElement.individual_profits\<close>. Its first two statements are
  \<^verbatim>\<open>groupidlist = self.matched.keys()\<close> and \<^verbatim>\<open>groupidlist.sort()\<close>. The sibling methods
  \<^verbatim>\<open>return_profits_for_code\<close>, \<^verbatim>\<open>display_taxes_for_code\<close> and \<^verbatim>\<open>average_commission\<close> wrap
  the keys in \<^verbatim>\<open>list(...)\<close> first; this one does not, and a key view has no \<^verbatim>\<open>sort\<close>
  method, so the second statement raises AttributeError whatever the dict holds, and the
  statements after it (the net profit, index 9, of each group's tuple) are never reached.
\<close>

definition individual_profits ::
  "group_display_taxes \<Rightarrow> TaxCalcElement \<Rightarrow> int \<Rightarrow> error + rat list" where
  "individual_profits gdt e taxyear = Inl AttributeError"

text \<open>
  A \<^verbatim>\<open>TaxCalcDict\<close> is a dict from code to element: an association list in insertion order.
  \<^verbatim>\<open>TaxCalcDict.individual_profits\<close> visits the codes in sorted order and concatenates the
  elements' lists; the first element that raises ends the call.
\<close>

type_synonym TaxCalcDict = "(string \<times> TaxCalcElement) list"

fun collect :: "('a \<Rightarrow> error + 'b) \<Rightarrow> 'a list \<Rightarrow> error + 'b list" where
  "collect f [] = Inr []"
| "collect f (x # xs) =
     (case f x of
        Inl err \<Rightarrow> Inl err
      | Inr y \<Rightarrow> (case collect f xs of Inl err \<Rightarrow> Inl err | Inr ys \<Rightarrow> Inr (y # ys)))"

definition sorted_codes :: "(string \<times> 'a) list \<Rightarrow> string list" where
  "sorted_codes d = sort (map fst d)"

definition dict_individual_profits ::
  "group_display_taxes \<Rightarrow> TaxCalcDict \<Rightarrow> int \<Rightarrow> error + rat list" where
  "dict_individual_profits gdt d taxyear =
     (case collect (\<lambda>code. individual_profits gdt (the (map_of d code)) taxyear) (sorted_codes d) of
        Inl err \<Rightarrow> Inl err
      | Inr profit_list \<Rightarrow> Inr (concat profit_list))"

text \<open>The body of \<^verbatim>\<open>win_loss_ratio_etc\<close> after the profits have been read.\<close>

definition win_loss_of :: "rat list \<Rightarrow> number \<times> number \<times> nat \<times> nat" where
  "win_loss_of indi_profits =
     (let wins = filter (\<lambda>x. x > 0) indi_profits;
          losses = filter (\<lambda>x. x < 0) indi_profits
      in (np_mean wins, np_mean losses, length wins, length losses))"

definition win_loss_ratio_etc ::
  "group_display_taxes \<Rightarrow> TaxCalcDict \<Rightarrow> int \<Rightarrow> error + (number \<times> number \<times> nat \<times> nat)" where
  "win_loss_ratio_etc gdt d tax_year =
     (case dict_individual_profits gdt d tax_year of
        Inl err \<Rightarrow> Inl err
      | Inr indi_profits \<Rightarrow> Inr (win_loss_of indi_profits))"

section \<open>The ledger of unmatched trades\<close>

text \<open>
  The ledger (\<^verbatim>\<open>TradeList\<close>), its trades and the match group are classes of tradelist.py
  and taxcalctradegroup.py, which are not among the sources. The operations of this
  section are modelled from the spec (its sections 3 and 4.1); each says which sentence
  it follows. Quantities are signed: the sign is the side.
\<close>

text \<open>
  Modelled from the spec: \<^verbatim>\<open>final_position\<close>, "signed sum of remaining quantities".
\<close>

definition final_position :: "Trade list \<Rightarrow> rat" where
  "final_position L = sum_list (map Quantity L)"

definition opposite_side :: "Trade \<Rightarrow> Trade \<Rightarrow> bool" where
  "opposite_side t reference = (Quantity t * Quantity reference < 0)"

text \<open>
  The candidate positions of a lookup, in ledger order, and the earliest-dated of them
  (the first in ledger order among equal dates).
\<close>

definition idx_where :: "(Trade \<Rightarrow> bool) \<Rightarrow> Trade list \<Rightarrow> nat list" where
  "idx_where P L = filter (\<lambda>i. P (L ! i)) [0..<length L]"

fun earliest_idx :: "Trade list \<Rightarrow> nat list \<Rightarrow> nat option" where
  "earliest_idx L [] = None"
| "earliest_idx L (i # rest) =
     (case earliest_idx L rest of
        None \<Rightarrow> Some i
      | Some j \<Rightarrow> if Date (L ! i) \<le> Date (L ! j) then Some i else Some j)"

definition remove_idx :: "nat \<Rightarrow> 'a list \<Rightarrow> 'a list" where
  "remove_idx i L = take i L @ drop (Suc i) L"

text \<open>
  Modelled from the spec: \<^verbatim>\<open>pop_earliest_closing_trade\<close>, "removes and returns the
  chronologically earliest Trade whose type is Close; returns none if no closing trades
  remain".
\<close>

definition pop_earliest_closing_trade :: "Trade list \<Rightarrow> Trade option \<times> Trade list" where
  "pop_earliest_closing_trade L =
     (case earliest_idx L (idx_where (\<lambda>t. tradetype t = Close) L) of
        None \<Rightarrow> (None, L)
      | Some i \<Rightarrow> (Some (L ! i), remove_idx i L))"

text \<open>
  Modelled from the spec: \<^verbatim>\<open>idx_of_last_trade_same_day\<close>, "among remaining trades with
  date equal to reference's date and opposite side, the index of the most recently added
  matching trade; returns none if none exists".
\<close>

definition idx_of_last_trade_same_day :: "Trade list \<Rightarrow> Trade \<Rightarrow> nat option" where
  "idx_of_last_trade_same_day L reference =
     (case idx_where (\<lambda>t. Date t = Date reference \<and> opposite_side t reference) L of
        [] \<Rightarrow> None
      | i # rest \<Rightarrow> Some (last (i # rest)))"

text \<open>
  Modelled from the spec: \<^verbatim>\<open>idx_of_first_trade_next_30days\<close>, "the earliest-dated
  opposite-side trade strictly within 30 calendar days after reference's date": a date
  after the reference's and at most 30 days later.
\<close>

definition idx_of_first_trade_next_30days :: "Trade list \<Rightarrow> Trade \<Rightarrow> nat option" where
  "idx_of_first_trade_next_30days L reference =
     earliest_idx L
       (idx_where (\<lambda>t. Date reference < Date t \<and> Date t \<le> Date reference + 30
                        \<and> opposite_side t reference) L)"

text \<open>
  Modelled from the spec: \<^verbatim>\<open>idx_of_trades_before_datetime\<close>, "all remaining trades dated
  strictly before reference's date (any side)".
\<close>

definition idx_of_trades_before_datetime :: "Trade list \<Rightarrow> Trade \<Rightarrow> nat list" where
  "idx_of_trades_before_datetime L reference = idx_where (\<lambda>t. Date t < Date reference) L"

text \<open>
  Modelled from the spec: the split of a trade, "two Trades whose quantities sum to the
  original and whose commission is apportioned pro-rata to quantity; splitting never
  changes price, date, code, or type". The argument is the fraction taken; the result is
  the piece taken and the remainder.
\<close>

definition split_trade :: "Trade \<Rightarrow> rat \<Rightarrow> Trade \<times> Trade" where
  "split_trade t fraction =
     (t\<lparr>Quantity := fraction * Quantity t, Commission := fraction * Commission t\<rparr>,
      t\<lparr>Quantity := Quantity t - fraction * Quantity t,
        Commission := Commission t - fraction * Commission t\<rparr>)"

text \<open>
  Modelled from the spec: \<^verbatim>\<open>partial_pop_idx\<close>, "If the trade's remaining quantity exceeds
  max_quantity, it is split: the consumed portion (with proportional commission) is
  returned and removed; the remainder stays in the ledger at the same position. If
  quantity \<le> max_quantity, the whole trade is removed and returned". The comparison is
  of magnitudes. \<open>maxtopop\<close> is the signed unmatched quantity of the closing side, and the
  consumed portion is the quantity of the other side that cancels it. An index outside
  the list raises, as Python's list indexing does.
\<close>

definition partial_pop_idx :: "Trade list \<Rightarrow> nat \<Rightarrow> rat \<Rightarrow> error + (Trade \<times> Trade list)" where
  "partial_pop_idx L idx maxtopop =
     (if length L \<le> idx then Inl IndexError
      else let tradetopop = L ! idx in
        if \<bar>Quantity tradetopop\<bar> \<le> \<bar>maxtopop\<bar> then Inr (tradetopop, remove_idx idx L)
        else (case split_trade tradetopop (- maxtopop / Quantity tradetopop) of
                (piece, remainder) \<Rightarrow> Inr (piece, L[idx := remainder])))"

text \<open>
  Modelled from the spec: \<^verbatim>\<open>_proportionate_pop_idx\<close>, "consumes exactly target_quantity in
  aggregate from the trades at the given indices, apportioned to each trade in proportion
  to its own remaining quantity (so every contributing lot shrinks by the same fraction);
  returns the list of consumed partial-Trade pieces. Fails with an ArithmeticError-class
  condition if the indices' total available quantity is less than target_quantity". The
  available quantity is the signed sum over the indices, compared in magnitude; a lot
  taken whole leaves the ledger.
\<close>

definition proportionate_pop_idx ::
  "Trade list \<Rightarrow> nat list \<Rightarrow> rat \<Rightarrow> error + (Trade list \<times> Trade list)" where
  "proportionate_pop_idx L idxlist maxtopop =
     (if list_ex (\<lambda>i. length L \<le> i) idxlist then Inl IndexError
      else let total = sum_list (map (\<lambda>i. Quantity (L ! i)) idxlist) in
        if \<bar>total\<bar> < \<bar>maxtopop\<bar> then Inl ArithmeticError
        else let share = (if total = 0 then 0 else \<bar>maxtopop\<bar> / \<bar>total\<bar>);
                 pieces = map (\<lambda>i. fst (split_trade (L ! i) share)) idxlist
             in if share = 1
                then Inr (pieces, map snd (filter (\<lambda>(i, t). i \<notin> set idxlist) (enumerate 0 L)))
                else Inr (pieces,
                          map (\<lambda>(i, t). if i \<in> set idxlist then snd (split_trade t share) else t)
                              (enumerate 0 L)))"

text \<open>
  Modelled from the spec: \<^verbatim>\<open>date_sort\<close>, the ledger in chronological order (Python's sort
  is stable), so that the \<^verbatim>\<open>pop()\<close> after it takes "the chronologically last remaining
  trade".
\<close>

definition date_sort :: "Trade list \<Rightarrow> Trade list" where
  "date_sort L = sort_key Date L"

section \<open>The match group\<close>

text \<open>
  Modelled from the spec: the constructor of \<^verbatim>\<open>TaxCalcTradeGroup\<close>, \<^verbatim>\<open>count_unmatched\<close> and
  \<^verbatim>\<open>is_unmatched\<close>. "Created when a closing trade is pulled from the ledger"; "sum of
  quantities across same_day + within_month + pooled equals the closing trade's quantity
  in magnitude (a group is fully matched, \<^verbatim>\<open>is_unmatched()\<close> becomes false, exactly when this
  holds)"; the unmatched count is "the group's remaining unmatched quantity". The matched
  pieces are of the side opposite to the closing trade, so the signed remainder is the
  closing quantity plus theirs.
\<close>

definition TaxCalcTradeGroup_init :: "Trade \<Rightarrow> TaxCalcTradeGroup" where
  "TaxCalcTradeGroup_init closingtrade =
     \<lparr>closing_trade = closingtrade, same_day = [], within_month = [], s104 = []\<rparr>"

definition matching_quantity :: "TaxCalcTradeGroup \<Rightarrow> rat" where
  "matching_quantity g =
     final_position (same_day g) + final_position (within_month g) + final_position (s104 g)"

definition count_unmatched :: "TaxCalcTradeGroup \<Rightarrow> rat" where
  "count_unmatched g = Quantity (closing_trade g) + matching_quantity g"

definition is_unmatched :: "TaxCalcTradeGroup \<Rightarrow> bool" where
  "is_unmatched g = (count_unmatched g \<noteq> 0)"

section \<open>Matching one closing trade\<close>

lemma remove_idx_length: "i < length L \<Longrightarrow> length (remove_idx i L) = length L - 1"
  by (simp add: remove_idx_def)

lemma partial_pop_idx_result:
  assumes "partial_pop_idx L idx m = Inr (p, L')"
  shows "idx < length L \<and>
         ((p = L ! idx \<and> L' = remove_idx idx L \<and> \<bar>Quantity (L ! idx)\<bar> \<le> \<bar>m\<bar>) \<or>
          (\<bar>m\<bar> < \<bar>Quantity (L ! idx)\<bar>
             \<and> p = fst (split_trade (L ! idx) (- m / Quantity (L ! idx)))
             \<and> L' = L[idx := snd (split_trade (L ! idx) (- m / Quantity (L ! idx)))]
             \<and> Quantity p = - m))"
  using assms
  by (auto simp: partial_pop_idx_def Let_def split_trade_def split: if_splits)

text \<open>
  The first loop of \<^verbatim>\<open>match_for_group\<close> (same day). The state of the loop is the group and
  the ledger \<^verbatim>\<open>self.unmatched\<close>; an exception of the pop leaves the loop.
\<close>

function same_day_tier ::
  "Trade \<Rightarrow> TaxCalcTradeGroup \<Rightarrow> Trade list \<Rightarrow> error + (TaxCalcTradeGroup \<times> Trade list)" where
  "same_day_tier trade_to_match g L =
     (if is_unmatched g then
        (case idx_of_last_trade_same_day L trade_to_match of
           None \<Rightarrow> Inr (g, L)
         | Some tradeidx \<Rightarrow>
             (case partial_pop_idx L tradeidx (count_unmatched g) of
                Inl err \<Rightarrow> Inl err
              | Inr (popped_trade, L') \<Rightarrow>
                  same_day_tier trade_to_match (g\<lparr>same_day := same_day g @ [popped_trade]\<rparr>) L'))
      else Inr (g, L))"
  by pat_completeness auto
termination
proof (relation "measure (\<lambda>(t, g, L). 2 * length L + (if is_unmatched g then 1 else 0))", goal_cases)
  case 1
  show ?case by simp
next
  case (2 t g L i x p L')
  from partial_pop_idx_result[of L i "count_unmatched g" p L'] 2
  show ?case
    by (auto simp: remove_idx_length is_unmatched_def count_unmatched_def matching_quantity_def
        final_position_def)
qed

text \<open>The second loop (30 day rule).\<close>

function within_month_tier ::
  "Trade \<Rightarrow> TaxCalcTradeGroup \<Rightarrow> Trade list \<Rightarrow> error + (TaxCalcTradeGroup \<times> Trade list)" where
  "within_month_tier trade_to_match g L =
     (if is_unmatched g then
        (case idx_of_first_trade_next_30days L trade_to_match of
           None \<Rightarrow> Inr (g, L)
         | Some tradeidx \<Rightarrow>
             (case partial_pop_idx L tradeidx (count_unmatched g) of
                Inl err \<Rightarrow> Inl err
              | Inr (popped_trade, L') \<Rightarrow>
                  within_month_tier trade_to_match
                    (g\<lparr>within_month := within_month g @ [popped_trade]\<rparr>) L'))
      else Inr (g, L))"
  by pat_completeness auto
termination
proof (relation "measure (\<lambda>(t, g, L). 2 * length L + (if is_unmatched g then 1 else 0))", goal_cases)
  case 1
  show ?case by simp
next
  case (2 t g L i x p L')
  from partial_pop_idx_result[of L i "count_unmatched g" p L'] 2
  show ?case
    by (auto simp: remove_idx_length is_unmatched_def count_unmatched_def matching_quantity_def
        final_position_def)
qed

text \<open>The S104 block: a proportionate pop of all the trades before the closing trade.\<close>

definition s104_tier ::
  "Trade \<Rightarrow> TaxCalcTradeGroup \<Rightarrow> Trade list \<Rightarrow> error + (TaxCalcTradeGroup \<times> Trade list)" where
  "s104_tier trade_to_match g L =
     (if is_unmatched g then
        (let tradeidxlist = idx_of_trades_before_datetime L trade_to_match in
         if length tradeidxlist > 0 then
           (case proportionate_pop_idx L tradeidxlist (count_unmatched g) of
              Inl err \<Rightarrow> Inl err
            | Inr (popped_trades, L') \<Rightarrow> Inr (g\<lparr>s104 := popped_trades\<rparr>, L'))
         else Inr (g, L))
      else Inr (g, L))"

text \<open>The two loops under \<^verbatim>\<open>if CGTcalc\<close>.\<close>

definition cgt_tiers ::
  "Trade \<Rightarrow> TaxCalcTradeGroup \<Rightarrow> Trade list \<Rightarrow> error + (TaxCalcTradeGroup \<times> Trade list)" where
  "cgt_tiers trade_to_match g L =
     (case same_day_tier trade_to_match g L of
        Inl err \<Rightarrow> Inl err
      | Inr (g1, L1) \<Rightarrow> within_month_tier trade_to_match g1 L1)"

text \<open>Python's \<^verbatim>\<open>%d\<close> truncates its argument towards zero.\<close>

definition py_int :: "rat \<Rightarrow> int" where
  "py_int q = (if 0 \<le> q then \<lfloor>q\<rfloor> else \<lceil>q\<rceil>)"

text \<open>
  The last block of \<^verbatim>\<open>match_for_group\<close>: a group still unmatched is printed and the run
  ends with an exception; otherwise the group is returned.
\<close>

definition final_check ::
  "TaxCalcTradeGroup \<times> Trade list \<Rightarrow> error + (TaxCalcTradeGroup \<times> Trade list)" where
  "final_check r =
     (case r of (g, L) \<Rightarrow>
        if is_unmatched g then Inl (NoMatch (py_int (count_unmatched g)) (closing_trade g))
        else Inr (g, L))"

text \<open>
  The tiers of \<^verbatim>\<open>match_for_group\<close> up to its last block: the two loops when \<^verbatim>\<open>CGTcalc\<close> is
  set, then the S104 block in either case.
\<close>

definition apply_tiers ::
  "Trade \<Rightarrow> bool \<Rightarrow> Trade list \<Rightarrow> error + (TaxCalcTradeGroup \<times> Trade list)" where
  "apply_tiers trade_to_match CGTcalc L =
     (case (if CGTcalc then cgt_tiers trade_to_match (TaxCalcTradeGroup_init trade_to_match) L
            else Inr (TaxCalcTradeGroup_init trade_to_match, L)) of
        Inl err \<Rightarrow> Inl err
      | Inr (g, L1) \<Rightarrow> s104_tier trade_to_match g L1)"

text \<open>\<^verbatim>\<open>TaxCalcElement.match_for_group\<close>, on the ledger \<^verbatim>\<open>self.unmatched\<close>.\<close>

definition match_for_group ::
  "Trade \<Rightarrow> bool \<Rightarrow> Trade list \<Rightarrow> error + (TaxCalcTradeGroup \<times> Trade list)" where
  "match_for_group trade_to_match CGTcalc L =
     (case apply_tiers trade_to_match CGTcalc L of
        Inl err \<Rightarrow> Inl err
      | Inr r \<Rightarrow> final_check r)"

text \<open>
  What no ledger operation changes in a trade it keeps or splits, and the relation between
  the ledger after an operation and before it: no longer, and no new lot.
\<close>

definition lot_key :: "Trade \<Rightarrow> string \<times> int \<times> rat \<times> TradeType" where
  "lot_key t = (Code t, Date t, Price t, tradetype t)"

definition shrinks :: "Trade list \<Rightarrow> Trade list \<Rightarrow> bool" where
  "shrinks L' L = (length L' \<le> length L \<and> lot_key ` set L' \<subseteq> lot_key ` set L)"

lemma shrinks_refl: "shrinks L L"
  by (simp add: shrinks_def)

lemma shrinks_trans: "shrinks L2 L1 \<Longrightarrow> shrinks L1 L \<Longrightarrow> shrinks L2 L"
  unfolding shrinks_def by (meson order_trans)

lemma split_trade_keys:
  "lot_key (fst (split_trade t f)) = lot_key t" "lot_key (snd (split_trade t f)) = lot_key t"
  by (simp_all add: split_trade_def lot_key_def)

lemma set_remove_idx: "set (remove_idx i L) \<subseteq> set L"
  unfolding remove_idx_def by (auto dest: in_set_takeD in_set_dropD)

lemma shrinks_remove_idx: "shrinks (remove_idx i L) L"
  unfolding shrinks_def using set_remove_idx[of i L] by (auto simp: remove_idx_def)

lemma shrinks_update:
  assumes "i < length L" "lot_key u = lot_key (L ! i)"
  shows "shrinks (L[i := u]) L"
proof -
  have "set (L[i := u]) \<subseteq> insert u (set L)" by (rule set_update_subset_insert)
  moreover have "lot_key u \<in> lot_key ` set L" using assms by (metis imageI nth_mem)
  ultimately show ?thesis unfolding shrinks_def by auto
qed

lemma partial_pop_idx_shrinks:
  assumes "partial_pop_idx L idx m = Inr (p, L')"
  shows "shrinks L' L" and "lot_key p \<in> lot_key ` set L"
proof -
  note r = partial_pop_idx_result[OF assms]
  show "shrinks L' L" using r by (auto simp: shrinks_remove_idx shrinks_update split_trade_keys)
  show "lot_key p \<in> lot_key ` set L" using r by (auto simp: split_trade_keys)
qed

lemma same_day_tier_shrinks:
  "same_day_tier t g L = Inr (g', L') \<Longrightarrow> shrinks L' L"
proof (induction t g L rule: same_day_tier.induct)
  case (1 t g L)
  show ?case
  proof (cases "is_unmatched g")
    case False
    with "1.prems" show ?thesis by (simp add: shrinks_refl)
  next
    case True
    show ?thesis
    proof (cases "idx_of_last_trade_same_day L t")
      case None
      with True "1.prems" show ?thesis by (simp add: shrinks_refl)
    next
      case (Some i)
      with True "1.prems" obtain p L1 where pop: "partial_pop_idx L i (count_unmatched g) = Inr (p, L1)"
        and rec: "same_day_tier t (g\<lparr>same_day := same_day g @ [p]\<rparr>) L1 = Inr (g', L')"
        by (auto split: sum.splits)
      from "1.IH"[OF True Some pop refl rec] partial_pop_idx_shrinks(1)[OF pop]
      show ?thesis by (rule shrinks_trans)
    qed
  qed
qed

lemma within_month_tier_shrinks:
  "within_month_tier t g L = Inr (g', L') \<Longrightarrow> shrinks L' L"
proof (induction t g L rule: within_month_tier.induct)
  case (1 t g L)
  show ?case
  proof (cases "is_unmatched g")
    case False
    with "1.prems" show ?thesis by (simp add: shrinks_refl)
  next
    case True
    show ?thesis
    proof (cases "idx_of_first_trade_next_30days L t")
      case None
      with True "1.prems" show ?thesis by (simp add: shrinks_refl)
    next
      case (Some i)
      with True "1.prems" obtain p L1 where pop: "partial_pop_idx L i (count_unmatched g) = Inr (p, L1)"
        and rec: "within_month_tier t (g\<lparr>within_month := within_month g @ [p]\<rparr>) L1 = Inr (g', L')"
        by (auto split: sum.splits)
      from "1.IH"[OF True Some pop refl rec] partial_pop_idx_shrinks(1)[OF pop]
      show ?thesis by (rule shrinks_trans)
    qed
  qed
qed

lemma in_set_enumerate_nth: "(i, t) \<in> set (enumerate 0 L) \<Longrightarrow> i < length L \<and> t = L ! i"
  by (auto simp: in_set_enumerate_eq)

lemma shrinks_filter_enumerate: "shrinks (map snd (filter P (enumerate 0 L))) L"
proof -
  have "length (filter P (enumerate 0 L)) \<le> length (enumerate 0 L)" by (rule length_filter_le)
  then have "length (map snd (filter P (enumerate 0 L))) \<le> length L" by simp
  moreover have "set (map snd (filter P (enumerate 0 L))) \<subseteq> set L"
    by (auto dest: in_set_enumerate_nth)
  ultimately show ?thesis unfolding shrinks_def by auto
qed

lemma shrinks_map_enumerate:
  "shrinks (map (\<lambda>(i, t). if Q i then snd (split_trade t s) else t) (enumerate 0 L)) L"
proof -
  have "lot_key ` set (map (\<lambda>(i, t). if Q i then snd (split_trade t s) else t) (enumerate 0 L))
          \<subseteq> lot_key ` set L"
    by (auto simp: split_trade_keys dest!: in_set_enumerate_nth)
  then show ?thesis unfolding shrinks_def by simp
qed

lemma proportionate_pop_idx_shrinks:
  assumes "proportionate_pop_idx L idxlist m = Inr (ps, L')"
  shows "shrinks L' L"
  using assms
  by (auto simp: proportionate_pop_idx_def Let_def shrinks_filter_enumerate shrinks_map_enumerate
      split: if_splits)

lemma s104_tier_shrinks: "s104_tier t g L = Inr (g', L') \<Longrightarrow> shrinks L' L"
  by (auto simp: s104_tier_def Let_def shrinks_refl split: if_splits sum.splits
      dest: proportionate_pop_idx_shrinks)

lemma apply_tiers_shrinks:
  assumes "apply_tiers t cgt L = Inr (g, L')"
  shows "shrinks L' L"
proof -
  from assms obtain g1 L1 where
    a: "(if cgt then cgt_tiers t (TaxCalcTradeGroup_init t) L
         else Inr (TaxCalcTradeGroup_init t, L)) = Inr (g1, L1)"
    and b: "s104_tier t g1 L1 = Inr (g, L')"
    by (auto simp: apply_tiers_def split: sum.splits)
  have "shrinks L1 L"
  proof (cases cgt)
    case False
    with a show ?thesis by (simp add: shrinks_refl)
  next
    case True
    with a obtain g0 L0 where "same_day_tier t (TaxCalcTradeGroup_init t) L = Inr (g0, L0)"
      "within_month_tier t g0 L0 = Inr (g1, L1)"
      by (auto simp: cgt_tiers_def split: sum.splits)
    then show ?thesis
      using same_day_tier_shrinks within_month_tier_shrinks shrinks_trans by blast
  qed
  with s104_tier_shrinks[OF b] show ?thesis by (rule shrinks_trans)
qed

lemma match_for_group_Inr:
  "match_for_group t cgt L = Inr (g, L') \<longleftrightarrow>
     apply_tiers t cgt L = Inr (g, L') \<and> \<not> is_unmatched g"
  by (auto simp: match_for_group_def final_check_def split: sum.splits)

lemma match_for_group_shrinks:
  "match_for_group t cgt L = Inr (g, L') \<Longrightarrow> shrinks L' L"
  by (auto simp: match_for_group_Inr dest: apply_tiers_shrinks)

section \<open>What each tier takes\<close>

lemma earliest_idx_mem: "earliest_idx L cands = Some i \<Longrightarrow> i \<in> set cands"
  by (induction cands arbitrary: i) (auto split: option.splits if_splits)

lemma idx_where_iff: "i \<in> set (idx_where P L) \<longleftrightarrow> i < length L \<and> P (L ! i)"
  by (auto simp: idx_where_def)

lemma sign_step:
  fixes c q r :: rat
  assumes "0 \<le> c * r" "q * r < 0" "\<bar>q\<bar> \<le> \<bar>c\<bar>"
  shows "0 \<le> (c + q) * r"
proof (cases "0 < r")
  case True
  with assms have "0 \<le> c" "q < 0" by (auto simp: zero_le_mult_iff mult_less_0_iff)
  with assms(3) have "0 \<le> c + q" by simp
  with True show ?thesis by simp
next
  case False
  with assms(2) have r: "r < 0" by (cases "r = 0") auto
  with assms have "c \<le> 0" "0 < q" by (auto simp: zero_le_mult_iff mult_less_0_iff)
  with assms(3) have "c + q \<le> 0" by simp
  with r show ?thesis by (simp add: zero_le_mult_iff)
qed

lemma sign_split:
  fixes c q r :: rat
  assumes "0 \<le> c * r" "c \<noteq> 0" "q * r < 0"
  shows "(- c) * r < 0"
proof -
  from assms(3) have "r \<noteq> 0" by auto
  with assms(2) have nz: "0 \<noteq> c * r" by simp
  have "0 < c * r" by (rule le_neq_trans[OF assms(1) nz])
  then show ?thesis by simp
qed

lemma idx_of_last_trade_same_day_Some:
  assumes "idx_of_last_trade_same_day L t = Some i"
  shows "i < length L \<and> Date (L ! i) = Date t \<and> opposite_side (L ! i) t"
proof -
  let ?c = "idx_where (\<lambda>u. Date u = Date t \<and> opposite_side u t) L"
  from assms have "?c \<noteq> []" "i = last ?c"
    by (auto simp: idx_of_last_trade_same_day_def split: list.splits)
  then have "i \<in> set ?c" by simp
  then show ?thesis by (simp add: idx_where_iff)
qed

lemma idx_of_last_trade_same_day_None:
  "idx_of_last_trade_same_day L t = None \<longleftrightarrow>
     (\<forall>u\<in>set L. \<not> (Date u = Date t \<and> opposite_side u t))"
proof -
  let ?c = "idx_where (\<lambda>u. Date u = Date t \<and> opposite_side u t) L"
  have "idx_of_last_trade_same_day L t = None \<longleftrightarrow> ?c = []"
    by (auto simp: idx_of_last_trade_same_day_def split: list.splits)
  also have "\<dots> \<longleftrightarrow> (\<forall>i. i \<notin> set ?c)" by auto
  also have "\<dots> \<longleftrightarrow> (\<forall>u\<in>set L. \<not> (Date u = Date t \<and> opposite_side u t))"
    unfolding idx_where_iff by (metis in_set_conv_nth)
  finally show ?thesis .
qed

lemma earliest_idx_None: "earliest_idx L cands = None \<longleftrightarrow> cands = []"
  by (cases cands) (auto split: option.splits)

lemma earliest_idx_min:
  "earliest_idx L cands = Some i \<Longrightarrow> j \<in> set cands \<Longrightarrow> Date (L ! i) \<le> Date (L ! j)"
proof (induction cands arbitrary: i)
  case Nil
  then show ?case by simp
next
  case (Cons a cands)
  show ?case
  proof (cases "earliest_idx L cands")
    case None
    then have "cands = []" by (simp add: earliest_idx_None)
    with Cons.prems show ?thesis by simp
  next
    case (Some k)
    note ih = Cons.IH[OF Some]
    show ?thesis
    proof (cases "Date (L ! a) \<le> Date (L ! k)")
      case True
      with Some Cons.prems(1) have i: "i = a" by simp
      from Cons.prems(2) consider "j = a" | "j \<in> set cands" by auto
      then show ?thesis
      proof cases
        case 1
        with i show ?thesis by simp
      next
        case 2
        from ih[OF 2] True i show ?thesis by simp
      qed
    next
      case False
      with Some Cons.prems(1) have i: "i = k" by simp
      from Cons.prems(2) consider "j = a" | "j \<in> set cands" by auto
      then show ?thesis
      proof cases
        case 1
        with i False show ?thesis by simp
      next
        case 2
        from ih[OF 2] i show ?thesis by simp
      qed
    qed
  qed
qed

lemma idx_of_first_trade_next_30days_Some:
  assumes "idx_of_first_trade_next_30days L t = Some i"
  shows "i < length L \<and> Date t < Date (L ! i) \<and> Date (L ! i) \<le> Date t + 30
         \<and> opposite_side (L ! i) t"
  using earliest_idx_mem[OF assms[unfolded idx_of_first_trade_next_30days_def]]
  by (simp add: idx_where_iff)

lemma idx_of_first_trade_next_30days_None:
  "idx_of_first_trade_next_30days L t = None \<longleftrightarrow>
     (\<forall>u\<in>set L. \<not> (Date t < Date u \<and> Date u \<le> Date t + 30 \<and> opposite_side u t))"
proof -
  let ?c = "idx_where (\<lambda>u. Date t < Date u \<and> Date u \<le> Date t + 30 \<and> opposite_side u t) L"
  have "idx_of_first_trade_next_30days L t = None \<longleftrightarrow> ?c = []"
    by (simp add: idx_of_first_trade_next_30days_def earliest_idx_None)
  also have "\<dots> \<longleftrightarrow> (\<forall>i. i \<notin> set ?c)" by auto
  also have "\<dots> \<longleftrightarrow> (\<forall>u\<in>set L. \<not> (Date t < Date u \<and> Date u \<le> Date t + 30 \<and> opposite_side u t))"
    unfolding idx_where_iff by (metis in_set_conv_nth)
  finally show ?thesis .
qed

lemma partial_pop_idx_piece:
  assumes "partial_pop_idx L i m = Inr (p, L')"
  shows "Date p = Date (L ! i)"
    and "(Quantity p = Quantity (L ! i) \<and> \<bar>Quantity (L ! i)\<bar> \<le> \<bar>m\<bar>) \<or> Quantity p = - m"
  using partial_pop_idx_result[OF assms] by (auto simp: split_trade_def)

text \<open>
  One pop of a loop: the piece is of the side opposite to the closing trade, and what is
  left to match keeps the closing trade's sign.
\<close>

lemma pop_step_sign:
  assumes pop: "partial_pop_idx L i (count_unmatched g) = Inr (p, L')"
    and opp: "opposite_side (L ! i) t"
    and inv: "0 \<le> count_unmatched g * Quantity t"
    and un: "is_unmatched g"
  shows "opposite_side p t" and "0 \<le> (count_unmatched g + Quantity p) * Quantity t"
proof -
  from partial_pop_idx_piece(2)[OF pop]
  consider (whole) "Quantity p = Quantity (L ! i)" "\<bar>Quantity (L ! i)\<bar> \<le> \<bar>count_unmatched g\<bar>"
    | (part) "Quantity p = - count_unmatched g" by blast
  then show "opposite_side p t"
  proof cases
    case whole
    with opp show ?thesis by (simp add: opposite_side_def)
  next
    case part
    from sign_split[OF inv _ opp[unfolded opposite_side_def]] un part
    show ?thesis by (simp add: opposite_side_def is_unmatched_def)
  qed
  from partial_pop_idx_piece(2)[OF pop]
  consider (whole) "Quantity p = Quantity (L ! i)" "\<bar>Quantity (L ! i)\<bar> \<le> \<bar>count_unmatched g\<bar>"
    | (part) "Quantity p = - count_unmatched g" by blast
  then show "0 \<le> (count_unmatched g + Quantity p) * Quantity t"
  proof cases
    case whole
    with sign_step[OF inv opp[unfolded opposite_side_def]] show ?thesis by simp
  next
    case part
    then show ?thesis by simp
  qed
qed

lemma count_unmatched_same_day_append:
  "count_unmatched (g\<lparr>same_day := same_day g @ [p]\<rparr>) = count_unmatched g + Quantity p"
  by (simp add: count_unmatched_def matching_quantity_def final_position_def)

lemma count_unmatched_within_month_append:
  "count_unmatched (g\<lparr>within_month := within_month g @ [p]\<rparr>) = count_unmatched g + Quantity p"
  by (simp add: count_unmatched_def matching_quantity_def final_position_def)

lemma same_day_tier_result:
  assumes "same_day_tier t g L = Inr (g', L')" and "0 \<le> count_unmatched g * Quantity t"
  shows "closing_trade g' = closing_trade g \<and> within_month g' = within_month g
         \<and> s104 g' = s104 g
         \<and> (\<exists>ps. same_day g' = same_day g @ ps
                \<and> (\<forall>p\<in>set ps. Date p = Date t \<and> opposite_side p t))
         \<and> (is_unmatched g' \<longrightarrow> idx_of_last_trade_same_day L' t = None)
         \<and> 0 \<le> count_unmatched g' * Quantity t"
  using assms
proof (induction t g L rule: same_day_tier.induct)
  case (1 t g L)
  show ?case
  proof (cases "is_unmatched g")
    case False
    with "1.prems" show ?thesis by simp
  next
    case True
    show ?thesis
    proof (cases "idx_of_last_trade_same_day L t")
      case None
      with True "1.prems" show ?thesis by simp
    next
      case (Some i)
      with True "1.prems"(1) obtain p L1
        where pop: "partial_pop_idx L i (count_unmatched g) = Inr (p, L1)"
          and rec: "same_day_tier t (g\<lparr>same_day := same_day g @ [p]\<rparr>) L1 = Inr (g', L')"
        by (auto split: sum.splits)
      note found = idx_of_last_trade_same_day_Some[OF Some]
      from found have opp: "opposite_side (L ! i) t" by simp
      note sg = pop_step_sign[OF pop opp "1.prems"(2) True]
      have date: "Date p = Date t" using partial_pop_idx_piece(1)[OF pop] found by simp
      have inv': "0 \<le> count_unmatched (g\<lparr>same_day := same_day g @ [p]\<rparr>) * Quantity t"
        using sg(2) by (simp only: count_unmatched_same_day_append)
      from "1.IH"[OF True Some pop refl rec inv'] obtain ps where
        ih: "closing_trade g' = closing_trade g" "within_month g' = within_month g"
            "s104 g' = s104 g" "same_day g' = (same_day g @ [p]) @ ps"
            "\<forall>q\<in>set ps. Date q = Date t \<and> opposite_side q t"
            "is_unmatched g' \<longrightarrow> idx_of_last_trade_same_day L' t = None"
            "0 \<le> count_unmatched g' * Quantity t"
        by auto
      have "same_day g' = same_day g @ (p # ps)" using ih(4) by simp
      moreover have "\<forall>q\<in>set (p # ps). Date q = Date t \<and> opposite_side q t"
        using ih(5) date sg(1) by simp
      ultimately have "\<exists>ps. same_day g' = same_day g @ ps
                \<and> (\<forall>p\<in>set ps. Date p = Date t \<and> opposite_side p t)" by blast
      with ih(1,2,3,6,7) show ?thesis by blast
    qed
  qed
qed

lemma within_month_tier_result:
  assumes "within_month_tier t g L = Inr (g', L')" and "0 \<le> count_unmatched g * Quantity t"
  shows "closing_trade g' = closing_trade g \<and> same_day g' = same_day g
         \<and> s104 g' = s104 g
         \<and> (\<exists>ps. within_month g' = within_month g @ ps
                \<and> (\<forall>p\<in>set ps. Date t < Date p \<and> Date p \<le> Date t + 30 \<and> opposite_side p t))
         \<and> (is_unmatched g' \<longrightarrow> idx_of_first_trade_next_30days L' t = None)
         \<and> 0 \<le> count_unmatched g' * Quantity t"
  using assms
proof (induction t g L rule: within_month_tier.induct)
  case (1 t g L)
  show ?case
  proof (cases "is_unmatched g")
    case False
    with "1.prems" show ?thesis by simp
  next
    case True
    show ?thesis
    proof (cases "idx_of_first_trade_next_30days L t")
      case None
      with True "1.prems" show ?thesis by simp
    next
      case (Some i)
      with True "1.prems"(1) obtain p L1
        where pop: "partial_pop_idx L i (count_unmatched g) = Inr (p, L1)"
          and rec: "within_month_tier t (g\<lparr>within_month := within_month g @ [p]\<rparr>) L1
                      = Inr (g', L')"
        by (auto split: sum.splits)
      note found = idx_of_first_trade_next_30days_Some[OF Some]
      from found have opp: "opposite_side (L ! i) t" by simp
      note sg = pop_step_sign[OF pop opp "1.prems"(2) True]
      have date: "Date t < Date p \<and> Date p \<le> Date t + 30"
        using partial_pop_idx_piece(1)[OF pop] found by simp
      have inv': "0 \<le> count_unmatched (g\<lparr>within_month := within_month g @ [p]\<rparr>) * Quantity t"
        using sg(2) by (simp only: count_unmatched_within_month_append)
      from "1.IH"[OF True Some pop refl rec inv'] obtain ps where
        ih: "closing_trade g' = closing_trade g" "same_day g' = same_day g"
            "s104 g' = s104 g" "within_month g' = (within_month g @ [p]) @ ps"
            "\<forall>q\<in>set ps. Date t < Date q \<and> Date q \<le> Date t + 30 \<and> opposite_side q t"
            "is_unmatched g' \<longrightarrow> idx_of_first_trade_next_30days L' t = None"
            "0 \<le> count_unmatched g' * Quantity t"
        by auto
      have "within_month g' = within_month g @ (p # ps)" using ih(4) by simp
      moreover have "\<forall>q\<in>set (p # ps). Date t < Date q \<and> Date q \<le> Date t + 30 \<and> opposite_side q t"
        using ih(5) date sg(1) by simp
      ultimately have "\<exists>ps. within_month g' = within_month g @ ps
                \<and> (\<forall>p\<in>set ps. Date t < Date p \<and> Date p \<le> Date t + 30 \<and> opposite_side p t)"
        by blast
      with ih(1,2,3,6,7) show ?thesis by blast
    qed
  qed
qed

lemma split_trade_piece:
  "Quantity (fst (split_trade u share)) = share * Quantity u"
  "Date (fst (split_trade u share)) = Date u"
  by (simp_all add: split_trade_def)

lemma final_position_pieces:
  "final_position (map (\<lambda>i. fst (split_trade (L ! i) share)) idxlist)
     = share * sum_list (map (\<lambda>i. Quantity (L ! i)) idxlist)"
  by (induction idxlist) (simp_all add: final_position_def split_trade_piece algebra_simps)

lemma proportionate_pop_idx_pieces:
  assumes "proportionate_pop_idx L idxlist m = Inr (ps, L')"
  shows "\<exists>share. 0 \<le> share \<and> share \<le> 1
           \<and> ps = map (\<lambda>i. fst (split_trade (L ! i) share)) idxlist"
    and "\<bar>final_position ps\<bar> = \<bar>m\<bar>"
proof -
  define total where "total = sum_list (map (\<lambda>i. Quantity (L ! i)) idxlist)"
  define share where "share = (if total = 0 then 0 else \<bar>m\<bar> / \<bar>total\<bar>)"
  from assms have le: "\<bar>m\<bar> \<le> \<bar>total\<bar>"
    and ps: "ps = map (\<lambda>i. fst (split_trade (L ! i) share)) idxlist"
    by (auto simp: proportionate_pop_idx_def Let_def total_def share_def split: if_splits)
  have "0 \<le> share" by (simp add: share_def)
  moreover have "share \<le> 1" using le by (simp add: share_def)
  ultimately show "\<exists>share. 0 \<le> share \<and> share \<le> 1
           \<and> ps = map (\<lambda>i. fst (split_trade (L ! i) share)) idxlist"
    using ps by blast
  have "final_position ps = share * total"
    unfolding ps total_def by (rule final_position_pieces)
  moreover have "\<bar>share * total\<bar> = \<bar>m\<bar>"
  proof (cases "total = 0")
    case True
    with le show ?thesis by simp
  next
    case False
    then show ?thesis by (simp add: share_def abs_mult)
  qed
  ultimately show "\<bar>final_position ps\<bar> = \<bar>m\<bar>" by simp
qed

lemma idx_of_trades_before_datetime_eq:
  "idx_of_trades_before_datetime L t = filter (\<lambda>i. Date (L ! i) < Date t) [0..<length L]"
  by (simp add: idx_of_trades_before_datetime_def idx_where_def)

lemma s104_tier_result:
  assumes "s104_tier t g L = Inr (g', L')"
  shows "closing_trade g' = closing_trade g \<and> same_day g' = same_day g
         \<and> within_month g' = within_month g
         \<and> (if is_unmatched g \<and> idx_of_trades_before_datetime L t \<noteq> []
             then (\<exists>share. 0 \<le> share \<and> share \<le> 1
                     \<and> s104 g' = map (\<lambda>i. fst (split_trade (L ! i) share))
                                      (idx_of_trades_before_datetime L t))
                  \<and> \<bar>final_position (s104 g')\<bar> = \<bar>count_unmatched g\<bar>
             else g' = g \<and> L' = L)"
proof (cases "is_unmatched g \<and> idx_of_trades_before_datetime L t \<noteq> []")
  case False
  with assms show ?thesis by (auto simp: s104_tier_def Let_def split: if_splits)
next
  case True
  with assms obtain ps where
    pop: "proportionate_pop_idx L (idx_of_trades_before_datetime L t) (count_unmatched g)
            = Inr (ps, L')"
    and g': "g' = g\<lparr>s104 := ps\<rparr>"
    by (auto simp: s104_tier_def Let_def split: if_splits sum.splits)
  from proportionate_pop_idx_pieces[OF pop] True show ?thesis unfolding g' by simp
qed

lemma count_unmatched_init: "count_unmatched (TaxCalcTradeGroup_init t) = Quantity t"
  by (simp add: count_unmatched_def matching_quantity_def final_position_def
      TaxCalcTradeGroup_init_def)

lemma init_sign: "0 \<le> count_unmatched (TaxCalcTradeGroup_init t) * Quantity t"
  by (simp add: count_unmatched_init)

lemma init_fields:
  "closing_trade (TaxCalcTradeGroup_init t) = t" "same_day (TaxCalcTradeGroup_init t) = []"
  "within_month (TaxCalcTradeGroup_init t) = []" "s104 (TaxCalcTradeGroup_init t) = []"
  by (simp_all add: TaxCalcTradeGroup_init_def)

lemma before_idx_nonempty:
  "idx_of_trades_before_datetime L t \<noteq> [] \<longleftrightarrow> (\<exists>u\<in>set L. Date u < Date t)"
proof -
  have "idx_of_trades_before_datetime L t \<noteq> []
          \<longleftrightarrow> (\<exists>i. i \<in> set (idx_where (\<lambda>u. Date u < Date t) L))"
    unfolding idx_of_trades_before_datetime_def by (metis all_not_in_conv set_empty)
  also have "\<dots> \<longleftrightarrow> (\<exists>u\<in>set L. Date u < Date t)"
    unfolding idx_where_iff by (metis in_set_conv_nth)
  finally show ?thesis .
qed

lemma apply_tiers_off: "apply_tiers t False L = s104_tier t (TaxCalcTradeGroup_init t) L"
  by (simp add: apply_tiers_def)

lemma apply_tiers_on:
  "apply_tiers t True L =
     (case same_day_tier t (TaxCalcTradeGroup_init t) L of
        Inl err \<Rightarrow> Inl err
      | Inr (g1, L1) \<Rightarrow>
          (case within_month_tier t g1 L1 of
             Inl err \<Rightarrow> Inl err
           | Inr (g2, L2) \<Rightarrow> s104_tier t g2 L2))"
  by (simp add: apply_tiers_def cgt_tiers_def split: sum.splits)

lemma same_day_first:
  assumes "same_day_tier t (TaxCalcTradeGroup_init t) L = Inr (g1, L1)"
  shows "within_month g1 = [] \<and> s104 g1 = []
         \<and> (\<forall>p\<in>set (same_day g1). Date p = Date t \<and> opposite_side p t)
         \<and> (is_unmatched g1 \<longrightarrow> (\<forall>u\<in>set L1. \<not> (Date u = Date t \<and> opposite_side u t)))"
  using same_day_tier_result[OF assms init_sign]
  by (auto simp: init_fields idx_of_last_trade_same_day_None)

lemma idx_of_first_trade_next_30days_min:
  assumes "idx_of_first_trade_next_30days L t = Some i"
    and "u \<in> set L" and "Date t < Date u \<and> Date u \<le> Date t + 30 \<and> opposite_side u t"
  shows "Date (L ! i) \<le> Date u"
proof -
  from assms(2) obtain j where j: "j < length L" "L ! j = u" by (auto simp: in_set_conv_nth)
  with assms(3) have "j \<in> set (idx_where (\<lambda>u. Date t < Date u \<and> Date u \<le> Date t + 30
                                          \<and> opposite_side u t) L)"
    by (simp add: idx_where_iff)
  from earliest_idx_min[OF assms(1)[unfolded idx_of_first_trade_next_30days_def] this] j
  show ?thesis by simp
qed

lemma within_month_tier_matched: "\<not> is_unmatched g \<Longrightarrow> within_month_tier t g L = Inr (g, L)"
  by simp

lemma within_month_tier_earliest_first:
  assumes "within_month_tier t g L = Inr (g', L')"
  shows "\<exists>ps. within_month g' = within_month g @ ps \<and> sorted (map Date ps)
           \<and> (\<forall>p\<in>set ps. \<exists>u\<in>set L. (Date t < Date u \<and> Date u \<le> Date t + 30
                                          \<and> opposite_side u t) \<and> Date u = Date p)"
  using assms
proof (induction t g L rule: within_month_tier.induct)
  case (1 t g L)
  show ?case
  proof (cases "is_unmatched g")
    case False
    with "1.prems" show ?thesis by simp
  next
    case True
    show ?thesis
    proof (cases "idx_of_first_trade_next_30days L t")
      case None
      with True "1.prems" show ?thesis by simp
    next
      case (Some i)
      with True "1.prems"(1) obtain p L1
        where pop: "partial_pop_idx L i (count_unmatched g) = Inr (p, L1)"
          and rec: "within_month_tier t (g\<lparr>within_month := within_month g @ [p]\<rparr>) L1
                      = Inr (g', L')"
        by (auto split: sum.splits)
      note found = idx_of_first_trade_next_30days_Some[OF Some]
      have date: "Date p = Date (L ! i)" by (rule partial_pop_idx_piece(1)[OF pop])
      from found have mem: "L ! i \<in> set L" by simp
      from "1.IH"[OF True Some pop refl rec] obtain ps where
        ih: "within_month g' = (within_month g @ [p]) @ ps" "sorted (map Date ps)"
            "\<forall>q\<in>set ps. \<exists>u\<in>set L1. (Date t < Date u \<and> Date u \<le> Date t + 30
                                          \<and> opposite_side u t) \<and> Date u = Date q"
        by auto
      from partial_pop_idx_result[OF pop]
      consider (whole) "L1 = remove_idx i L" | (part) "Quantity p = - count_unmatched g" by blast
      then show ?thesis
      proof cases
        case whole
        have later: "Date p \<le> Date q" if "q \<in> set ps" for q
        proof -
          from ih(3) that obtain u where u: "u \<in> set L1"
            "Date t < Date u \<and> Date u \<le> Date t + 30 \<and> opposite_side u t" "Date u = Date q"
            by blast
          from u(1) whole set_remove_idx[of i L] have "u \<in> set L" by auto
          from idx_of_first_trade_next_30days_min[OF Some this u(2)] date u(3)
          show ?thesis by simp
        qed
        have a: "within_month g' = within_month g @ (p # ps)" using ih(1) by simp
        have b: "sorted (map Date (p # ps))" using ih(2) later by auto
        have c: "\<forall>q\<in>set (p # ps). \<exists>u\<in>set L. (Date t < Date u \<and> Date u \<le> Date t + 30
                                          \<and> opposite_side u t) \<and> Date u = Date q"
        proof
          fix q assume "q \<in> set (p # ps)"
          then consider "q = p" | "q \<in> set ps" by auto
          then show "\<exists>u\<in>set L. (Date t < Date u \<and> Date u \<le> Date t + 30
                                          \<and> opposite_side u t) \<and> Date u = Date q"
          proof cases
            case 1
            with found mem date show ?thesis by auto
          next
            case 2
            with ih(3) obtain u where "u \<in> set L1"
              "(Date t < Date u \<and> Date u \<le> Date t + 30 \<and> opposite_side u t) \<and> Date u = Date q"
              by blast
            with whole set_remove_idx[of i L] show ?thesis by auto
          qed
        qed
        from a b c show ?thesis by blast
      next
        case part
        then have "\<not> is_unmatched (g\<lparr>within_month := within_month g @ [p]\<rparr>)"
          by (simp add: is_unmatched_def count_unmatched_within_month_append)
        from within_month_tier_matched[OF this] rec
        have "g' = g\<lparr>within_month := within_month g @ [p]\<rparr>" by simp
        then have a: "within_month g' = within_month g @ [p]" by simp
        have "\<exists>u\<in>set L. (Date t < Date u \<and> Date u \<le> Date t + 30
                                          \<and> opposite_side u t) \<and> Date u = Date p"
          using found mem date by auto
        with a show ?thesis by (intro exI[of _ "[p]"]) simp
      qed
    qed
  qed
qed

lemma within_month_second:
  assumes "same_day_tier t (TaxCalcTradeGroup_init t) L = Inr (g1, L1)"
    and "within_month_tier t g1 L1 = Inr (g2, L2)"
  shows "same_day g2 = same_day g1 \<and> s104 g2 = []
         \<and> (\<forall>p\<in>set (within_month g2).
               Date t < Date p \<and> Date p \<le> Date t + 30 \<and> opposite_side p t)
         \<and> sorted (map Date (within_month g2))
         \<and> (is_unmatched g2 \<longrightarrow>
               (\<forall>u\<in>set L2. \<not> (Date t < Date u \<and> Date u \<le> Date t + 30 \<and> opposite_side u t)))"
proof -
  note r1 = same_day_tier_result[OF assms(1) init_sign]
  then have inv: "0 \<le> count_unmatched g1 * Quantity t" by blast
  from r1 have e: "within_month g1 = []" "s104 g1 = []" by (simp_all add: init_fields)
  from within_month_tier_earliest_first[OF assms(2)] e(1)
  have srt: "sorted (map Date (within_month g2))" by auto
  from within_month_tier_result[OF assms(2) inv] e
  have "same_day g2 = same_day g1 \<and> s104 g2 = []
         \<and> (\<forall>p\<in>set (within_month g2).
               Date t < Date p \<and> Date p \<le> Date t + 30 \<and> opposite_side p t)
         \<and> (is_unmatched g2 \<longrightarrow>
               (\<forall>u\<in>set L2. \<not> (Date t < Date u \<and> Date u \<le> Date t + 30 \<and> opposite_side u t)))"
    by (auto simp: idx_of_first_trade_next_30days_None)
  with srt show ?thesis by blast
qed

lemma s104_third:
  assumes "s104_tier t g0 L0 = Inr (g', L')"
  shows "same_day g' = same_day g0 \<and> within_month g' = within_month g0
         \<and> (if is_unmatched g0 \<and> (\<exists>u\<in>set L0. Date u < Date t)
             then (\<exists>share. 0 \<le> share \<and> share \<le> 1
                     \<and> s104 g' = map (\<lambda>i. fst (split_trade (L0 ! i) share))
                                      (filter (\<lambda>i. Date (L0 ! i) < Date t) [0..<length L0]))
                  \<and> \<bar>final_position (s104 g')\<bar> = \<bar>count_unmatched g0\<bar>
             else g' = g0 \<and> L' = L0)"
proof -
  have ne: "idx_of_trades_before_datetime L0 t \<noteq> [] \<longleftrightarrow> (\<exists>u\<in>set L0. Date u < Date t)"
    by (rule before_idx_nonempty)
  have eq: "idx_of_trades_before_datetime L0 t
              = filter (\<lambda>i. Date (L0 ! i) < Date t) [0..<length L0]"
    by (rule idx_of_trades_before_datetime_eq)
  from s104_tier_result[OF assms] show ?thesis
    unfolding ne unfolding eq by blast
qed

lemma match_off_all_pooled:
  assumes "match_for_group t False L = Inr (g, L')"
  shows "same_day g = [] \<and> within_month g = [] \<and> final_position (s104 g) = - Quantity t"
proof -
  from assms have a: "s104_tier t (TaxCalcTradeGroup_init t) L = Inr (g, L')"
    and m: "\<not> is_unmatched g"
    by (simp_all add: match_for_group_Inr apply_tiers_off)
  from s104_tier_result[OF a] have f: "closing_trade g = t" "same_day g = []" "within_month g = []"
    by (simp_all add: init_fields)
  from m f show ?thesis
    by (simp add: is_unmatched_def count_unmatched_def matching_quantity_def final_position_def)
qed

lemma apply_tiers_closing_trade:
  assumes "apply_tiers t cgt L = Inr (g, L')"
  shows "closing_trade g = t"
proof -
  from assms obtain g1 L1 where
    a: "(if cgt then cgt_tiers t (TaxCalcTradeGroup_init t) L
         else Inr (TaxCalcTradeGroup_init t, L)) = Inr (g1, L1)"
    and b: "s104_tier t g1 L1 = Inr (g, L')"
    by (auto simp: apply_tiers_def split: sum.splits)
  have "closing_trade g1 = t"
  proof (cases cgt)
    case False
    with a show ?thesis by (auto simp: init_fields)
  next
    case True
    with a obtain g0 L0 where s: "same_day_tier t (TaxCalcTradeGroup_init t) L = Inr (g0, L0)"
      and w: "within_month_tier t g0 L0 = Inr (g1, L1)"
      by (auto simp: cgt_tiers_def split: sum.splits)
    note r0 = same_day_tier_result[OF s init_sign]
    then have "0 \<le> count_unmatched g0 * Quantity t" by blast
    from within_month_tier_result[OF w this] r0 show ?thesis by (simp add: init_fields)
  qed
  with s104_tier_result[OF b] show ?thesis by simp
qed

lemma matched_magnitude:
  assumes "\<not> is_unmatched g"
  shows "final_position (same_day g) + final_position (within_month g) + final_position (s104 g)
           = - Quantity (closing_trade g)"
    and "\<bar>final_position (same_day g) + final_position (within_month g) + final_position (s104 g)\<bar>
           = \<bar>Quantity (closing_trade g)\<bar>"
  using assms by (simp_all add: is_unmatched_def count_unmatched_def matching_quantity_def)

text \<open>
  The pops in terms of the ledger's trades rather than its indices, what every tier leaves
  of the ledger's total quantity and of its trades outside the tier's reach, and the tiers
  put together as \<^verbatim>\<open>match_for_group\<close> runs them.
\<close>

lemma nth_idx_where: "map (\<lambda>i. L ! i) (idx_where P L) = filter P L"
proof -
  have "filter P (map (\<lambda>i. L ! i) [0..<length L])
          = map (\<lambda>i. L ! i) (filter (P \<circ> (\<lambda>i. L ! i)) [0..<length L])"
    by (rule filter_map)
  then show ?thesis by (simp add: idx_where_def map_nth comp_def)
qed

lemma map_idx_where: "map (\<lambda>i. f (L ! i)) (idx_where P L) = map f (filter P L)"
  using arg_cong[OF nth_idx_where[of L P], of "map f"] by (simp add: comp_def)

lemma idx_where_in_range: "\<not> list_ex (\<lambda>i. length L \<le> i) (idx_where P L)"
  by (auto simp: list_ex_iff idx_where_iff)

lemma enumerate_pred:
  "(i, u) \<in> set (enumerate 0 L) \<Longrightarrow> i \<in> set (idx_where P L) \<longleftrightarrow> P u"
  by (auto simp: idx_where_iff dest: in_set_enumerate_nth)

lemma enumerate_filter_idx_where:
  "map snd (filter (\<lambda>(i, u). i \<notin> set (idx_where P L)) (enumerate 0 L)) = filter (\<lambda>u. \<not> P u) L"
proof -
  have "filter (\<lambda>(i, u). i \<notin> set (idx_where P L)) (enumerate 0 L)
          = filter (\<lambda>x. \<not> P (snd x)) (enumerate 0 L)"
    by (rule filter_cong) (auto simp: enumerate_pred)
  also have "\<dots> = filter ((\<lambda>u. \<not> P u) \<circ> snd) (enumerate 0 L)"
    by (simp only: comp_def)
  finally have "map snd (filter (\<lambda>(i, u). i \<notin> set (idx_where P L)) (enumerate 0 L))
          = filter (\<lambda>u. \<not> P u) (map snd (enumerate 0 L))"
    by (simp only: filter_map)
  then show ?thesis by (simp only: map_snd_enumerate)
qed

lemma enumerate_map_idx_where:
  "map (\<lambda>(i, u). if i \<in> set (idx_where P L) then h u else u) (enumerate 0 L)
     = map (\<lambda>u. if P u then h u else u) L"
proof -
  have "map (\<lambda>(i, u). if i \<in> set (idx_where P L) then h u else u) (enumerate 0 L)
          = map (\<lambda>x. if P (snd x) then h (snd x) else snd x) (enumerate 0 L)"
    by (rule map_cong) (auto simp: enumerate_pred)
  also have "\<dots> = map (\<lambda>u. if P u then h u else u) (map snd (enumerate 0 L))"
    by (simp only: map_map comp_def)
  finally show ?thesis by (simp only: map_snd_enumerate)
qed

lemma proportionate_pop_idx_where:
  assumes "proportionate_pop_idx L (idx_where P L) m = Inr (ps, L')"
  shows "\<exists>share. 0 \<le> share \<and> share \<le> 1
           \<and> ps = map (\<lambda>u. fst (split_trade u share)) (filter P L)
           \<and> L' = (if share = 1 then filter (\<lambda>u. \<not> P u) L
                    else map (\<lambda>u. if P u then snd (split_trade u share) else u) L)"
proof -
  define total where "total = sum_list (map (\<lambda>i. Quantity (L ! i)) (idx_where P L))"
  define share where "share = (if total = 0 then 0 else \<bar>m\<bar> / \<bar>total\<bar>)"
  from assms have le: "\<bar>m\<bar> \<le> \<bar>total\<bar>"
    and ps: "ps = map (\<lambda>i. fst (split_trade (L ! i) share)) (idx_where P L)"
    and L': "L' = (if share = 1
                   then map snd (filter (\<lambda>(i, t). i \<notin> set (idx_where P L)) (enumerate 0 L))
                   else map (\<lambda>(i, t). if i \<in> set (idx_where P L) then snd (split_trade t share) else t)
                          (enumerate 0 L))"
    by (auto simp: proportionate_pop_idx_def Let_def total_def share_def idx_where_in_range
        split: if_splits)
  have a: "0 \<le> share" by (simp add: share_def)
  have b: "share \<le> 1" using le by (simp add: share_def)
  have c: "ps = map (\<lambda>u. fst (split_trade u share)) (filter P L)"
    unfolding ps by (rule map_idx_where)
  have d: "L' = (if share = 1 then filter (\<lambda>u. \<not> P u) L
                    else map (\<lambda>u. if P u then snd (split_trade u share) else u) L)"
    unfolding L' by (simp only: enumerate_filter_idx_where enumerate_map_idx_where)
  from a b c d show ?thesis by blast
qed

lemma sum_list_filter_split:
  fixes f :: "'a \<Rightarrow> rat"
  shows "sum_list (map f (filter P xs)) + sum_list (map f (filter (\<lambda>u. \<not> P u) xs))
           = sum_list (map f xs)"
  by (induction xs) auto

lemma split_trade_sum:
  "Quantity (fst (split_trade u share)) + Quantity (snd (split_trade u share)) = Quantity u"
  by (simp add: split_trade_def)

lemma proportionate_conserves:
  "final_position (map (\<lambda>u. fst (split_trade u share)) (filter P L))
     + final_position (if share = 1 then filter (\<lambda>u. \<not> P u) L
                       else map (\<lambda>u. if P u then snd (split_trade u share) else u) L)
     = final_position L"
proof (cases "share = 1")
  case True
  have q: "Quantity (fst (split_trade u 1)) = Quantity u" for u
    by (simp add: split_trade_def)
  from True show ?thesis
    using sum_list_filter_split[of Quantity P L] by (simp add: final_position_def comp_def q)
next
  case False
  have "sum_list (map (\<lambda>u. Quantity (fst (split_trade u share))) (filter P L))
          + sum_list (map (\<lambda>u. Quantity (if P u then snd (split_trade u share) else u)) L)
          = sum_list (map Quantity L)"
    by (induction L) (auto simp: split_trade_def)
  with False show ?thesis by (simp add: final_position_def comp_def)
qed

lemma partial_pop_idx_conserves:
  assumes "partial_pop_idx L i m = Inr (p, L')"
  shows "final_position L' + Quantity p = final_position L"
proof -
  from partial_pop_idx_result[OF assms] have i: "i < length L" by simp
  have L: "L = take i L @ L ! i # drop (Suc i) L" by (rule id_take_nth_drop[OF i])
  have whole: "final_position (remove_idx i L) + Quantity (L ! i) = final_position L"
  proof -
    have "final_position (take i L @ L ! i # drop (Suc i) L)
            = final_position (remove_idx i L) + Quantity (L ! i)"
      by (simp add: final_position_def remove_idx_def)
    with L show ?thesis by simp
  qed
  have upd: "final_position (L[i := r]) = final_position (remove_idx i L) + Quantity r" for r
    by (simp add: upd_conv_take_nth_drop[OF i] final_position_def remove_idx_def)
  from partial_pop_idx_result[OF assms] show ?thesis
  proof (elim conjE disjE)
    assume "p = L ! i" "L' = remove_idx i L"
    with whole show ?thesis by simp
  next
    assume p: "p = fst (split_trade (L ! i) (- m / Quantity (L ! i)))"
      and L': "L' = L[i := snd (split_trade (L ! i) (- m / Quantity (L ! i)))]"
    from split_trade_sum[of "L ! i" "- m / Quantity (L ! i)"] whole upd p L'
    show ?thesis by simp
  qed
qed

lemma same_day_tier_conserves:
  "same_day_tier t g L = Inr (g', L') \<Longrightarrow>
     final_position L' + final_position (same_day g') = final_position L + final_position (same_day g)"
proof (induction t g L rule: same_day_tier.induct)
  case (1 t g L)
  show ?case
  proof (cases "is_unmatched g")
    case False
    with "1.prems" show ?thesis by simp
  next
    case True
    show ?thesis
    proof (cases "idx_of_last_trade_same_day L t")
      case None
      with True "1.prems" show ?thesis by simp
    next
      case (Some i)
      with True "1.prems" obtain p L1
        where pop: "partial_pop_idx L i (count_unmatched g) = Inr (p, L1)"
          and rec: "same_day_tier t (g\<lparr>same_day := same_day g @ [p]\<rparr>) L1 = Inr (g', L')"
        by (auto split: sum.splits)
      from "1.IH"[OF True Some pop refl rec] partial_pop_idx_conserves[OF pop]
      show ?thesis by (simp add: final_position_def)
    qed
  qed
qed

lemma within_month_tier_conserves:
  "within_month_tier t g L = Inr (g', L') \<Longrightarrow>
     final_position L' + final_position (within_month g')
       = final_position L + final_position (within_month g)"
proof (induction t g L rule: within_month_tier.induct)
  case (1 t g L)
  show ?case
  proof (cases "is_unmatched g")
    case False
    with "1.prems" show ?thesis by simp
  next
    case True
    show ?thesis
    proof (cases "idx_of_first_trade_next_30days L t")
      case None
      with True "1.prems" show ?thesis by simp
    next
      case (Some i)
      with True "1.prems" obtain p L1
        where pop: "partial_pop_idx L i (count_unmatched g) = Inr (p, L1)"
          and rec: "within_month_tier t (g\<lparr>within_month := within_month g @ [p]\<rparr>) L1
                      = Inr (g', L')"
        by (auto split: sum.splits)
      from "1.IH"[OF True Some pop refl rec] partial_pop_idx_conserves[OF pop]
      show ?thesis by (simp add: final_position_def)
    qed
  qed
qed

lemma partial_pop_idx_other_dates:
  assumes "partial_pop_idx L i m = Inr (p, L')" and "u \<in> set L'" and "Date u \<noteq> Date (L ! i)"
  shows "u \<in> set L"
proof -
  from partial_pop_idx_result[OF assms(1)] show ?thesis
  proof (elim conjE disjE)
    assume "L' = remove_idx i L"
    with assms(2) set_remove_idx[of i L] show ?thesis by auto
  next
    assume L': "L' = L[i := snd (split_trade (L ! i) (- m / Quantity (L ! i)))]"
    from assms(2) L' have "u \<in> insert (snd (split_trade (L ! i) (- m / Quantity (L ! i)))) (set L)"
      using set_update_subset_insert by fastforce
    moreover have "Date (snd (split_trade (L ! i) (- m / Quantity (L ! i)))) = Date (L ! i)"
      by (simp add: split_trade_def)
    ultimately show ?thesis using assms(3) by auto
  qed
qed

lemma within_month_tier_keeps:
  "within_month_tier t g L = Inr (g', L') \<Longrightarrow> u \<in> set L' \<Longrightarrow>
     \<not> (Date t < Date u \<and> Date u \<le> Date t + 30) \<Longrightarrow> u \<in> set L"
proof (induction t g L rule: within_month_tier.induct)
  case (1 t g L)
  show ?case
  proof (cases "is_unmatched g")
    case False
    with "1.prems" show ?thesis by simp
  next
    case True
    show ?thesis
    proof (cases "idx_of_first_trade_next_30days L t")
      case None
      with True "1.prems" show ?thesis by simp
    next
      case (Some i)
      with True "1.prems"(1) obtain p L1
        where pop: "partial_pop_idx L i (count_unmatched g) = Inr (p, L1)"
          and rec: "within_month_tier t (g\<lparr>within_month := within_month g @ [p]\<rparr>) L1
                      = Inr (g', L')"
        by (auto split: sum.splits)
      from "1.IH"[OF True Some pop refl rec "1.prems"(2,3)] have u1: "u \<in> set L1" .
      from idx_of_first_trade_next_30days_Some[OF Some] "1.prems"(3)
      have "Date u \<noteq> Date (L ! i)" by auto
      from partial_pop_idx_other_dates[OF pop u1 this] show ?thesis .
    qed
  qed
qed

lemma s104_tier_list:
  assumes "s104_tier t g L = Inr (g', L')"
  shows "closing_trade g' = closing_trade g \<and> same_day g' = same_day g
         \<and> within_month g' = within_month g
         \<and> (if is_unmatched g \<and> (\<exists>u\<in>set L. Date u < Date t)
             then (\<exists>share. 0 \<le> share \<and> share \<le> 1
                     \<and> s104 g' = map (\<lambda>u. fst (split_trade u share))
                                      (filter (\<lambda>u. Date u < Date t) L)
                     \<and> L' = (if share = 1 then filter (\<lambda>u. \<not> Date u < Date t) L
                              else map (\<lambda>u. if Date u < Date t
                                              then snd (split_trade u share) else u) L))
                  \<and> \<bar>final_position (s104 g')\<bar> = \<bar>count_unmatched g\<bar>
             else g' = g \<and> L' = L)"
proof (cases "is_unmatched g \<and> (\<exists>u\<in>set L. Date u < Date t)")
  case False
  with assms show ?thesis
    by (auto simp: s104_tier_def Let_def before_idx_nonempty[symmetric] split: if_splits)
next
  case True
  then have ne: "idx_of_trades_before_datetime L t \<noteq> []" by (simp add: before_idx_nonempty)
  with True assms obtain ps where
    pop: "proportionate_pop_idx L (idx_of_trades_before_datetime L t) (count_unmatched g)
            = Inr (ps, L')"
    and g': "g' = g\<lparr>s104 := ps\<rparr>"
    by (auto simp: s104_tier_def Let_def split: if_splits sum.splits)
  note mag = proportionate_pop_idx_pieces(2)[OF pop]
  from proportionate_pop_idx_where[OF pop[unfolded idx_of_trades_before_datetime_def]]
  obtain share where "0 \<le> share" "share \<le> 1"
    "ps = map (\<lambda>u. fst (split_trade u share)) (filter (\<lambda>u. Date u < Date t) L)"
    "L' = (if share = 1 then filter (\<lambda>u. \<not> Date u < Date t) L
           else map (\<lambda>u. if Date u < Date t then snd (split_trade u share) else u) L)"
    by blast
  with mag True show ?thesis unfolding g' by auto
qed

lemma s104_tier_keeps:
  assumes "s104_tier t g L = Inr (g', L')" and "u \<in> set L'" and "\<not> Date u < Date t"
  shows "u \<in> set L"
proof (cases "is_unmatched g \<and> (\<exists>u\<in>set L. Date u < Date t)")
  case False
  with s104_tier_list[OF assms(1)] assms(2) show ?thesis by simp
next
  case True
  with s104_tier_list[OF assms(1)] obtain share where
    L': "L' = (if share = 1 then filter (\<lambda>u. \<not> Date u < Date t) L
           else map (\<lambda>u. if Date u < Date t then snd (split_trade u share) else u) L)"
    by auto
  show ?thesis
  proof (cases "share = 1")
    case True
    with L' assms(2) show ?thesis by simp
  next
    case False
    with L' assms(2) obtain v where v: "v \<in> set L"
      "u = (if Date v < Date t then snd (split_trade v share) else v)" by auto
    have "Date (snd (split_trade v share)) = Date v" by (simp add: split_trade_def)
    with v assms(3) show ?thesis by (cases "Date v < Date t") auto
  qed
qed

lemma s104_tier_conserves:
  assumes "s104_tier t g L = Inr (g', L')" and "s104 g = []"
  shows "final_position L' + final_position (s104 g') = final_position L"
proof (cases "is_unmatched g \<and> (\<exists>u\<in>set L. Date u < Date t)")
  case False
  with s104_tier_list[OF assms(1)] assms(2) show ?thesis by (simp add: final_position_def)
next
  case True
  with s104_tier_list[OF assms(1)] obtain share where
    "s104 g' = map (\<lambda>u. fst (split_trade u share)) (filter (\<lambda>u. Date u < Date t) L)"
    "L' = (if share = 1 then filter (\<lambda>u. \<not> Date u < Date t) L
           else map (\<lambda>u. if Date u < Date t then snd (split_trade u share) else u) L)"
    by auto
  with proportionate_conserves[of share "\<lambda>u. Date u < Date t" L] show ?thesis by simp
qed

lemma same_day_tier_takes:
  assumes "same_day_tier t (TaxCalcTradeGroup_init t) L = Inr (g1, L1)"
    and "\<exists>u\<in>set L. Date u = Date t \<and> opposite_side u t"
  shows "same_day g1 \<noteq> []"
proof -
  let ?g = "TaxCalcTradeGroup_init t"
  from assms(2) have "Quantity t \<noteq> 0" by (auto simp: opposite_side_def)
  then have un: "is_unmatched ?g" by (simp add: is_unmatched_def count_unmatched_init)
  from assms(2) have "idx_of_last_trade_same_day L t \<noteq> None"
    by (simp add: idx_of_last_trade_same_day_None)
  then obtain i where i: "idx_of_last_trade_same_day L t = Some i" by auto
  from assms(1) un i obtain p L0
    where pop: "partial_pop_idx L i (count_unmatched ?g) = Inr (p, L0)"
      and rec: "same_day_tier t (?g\<lparr>same_day := same_day ?g @ [p]\<rparr>) L0 = Inr (g1, L1)"
    by (subst (asm) same_day_tier.simps) (auto split: sum.splits)
  note opp = idx_of_last_trade_same_day_Some[OF i]
  from pop_step_sign(2)[OF pop _ init_sign un] opp
  have "0 \<le> count_unmatched (?g\<lparr>same_day := same_day ?g @ [p]\<rparr>) * Quantity t"
    by (simp only: count_unmatched_same_day_append)
  from same_day_tier_result[OF rec this] show ?thesis by auto
qed

lemma partial_pop_idx_filter_date:
  assumes "partial_pop_idx L i m = Inr (p, L')" and "\<not> Q (Date (L ! i))"
  shows "filter (\<lambda>u. Q (Date u)) L' = filter (\<lambda>u. Q (Date u)) L"
proof -
  from partial_pop_idx_result[OF assms(1)] have i: "i < length L"
    and d: "L' = remove_idx i L
            \<or> L' = L[i := snd (split_trade (L ! i) (- m / Quantity (L ! i)))]"
    by auto
  have L: "filter (\<lambda>u. Q (Date u)) L
             = filter (\<lambda>u. Q (Date u)) (take i L) @ filter (\<lambda>u. Q (Date u)) (drop (Suc i) L)"
  proof -
    have "filter (\<lambda>u. Q (Date u)) L
            = filter (\<lambda>u. Q (Date u)) (take i L @ L ! i # drop (Suc i) L)"
      using id_take_nth_drop[OF i] by simp
    also have "\<dots> = filter (\<lambda>u. Q (Date u)) (take i L) @ filter (\<lambda>u. Q (Date u)) (drop (Suc i) L)"
      using assms(2) by simp
    finally show ?thesis .
  qed
  from d show ?thesis
  proof
    assume "L' = remove_idx i L"
    then show ?thesis unfolding L by (simp add: remove_idx_def)
  next
    let ?r = "snd (split_trade (L ! i) (- m / Quantity (L ! i)))"
    assume "L' = L[i := ?r]"
    then have "L' = take i L @ ?r # drop (Suc i) L" using upd_conv_take_nth_drop[OF i] by simp
    moreover have "Date ?r = Date (L ! i)" by (simp add: split_trade_def)
    ultimately show ?thesis unfolding L using assms(2) by simp
  qed
qed

lemma same_day_tier_before:
  "same_day_tier t g L = Inr (g', L') \<Longrightarrow>
     filter (\<lambda>u. Date u < Date t) L' = filter (\<lambda>u. Date u < Date t) L"
proof (induction t g L rule: same_day_tier.induct)
  case (1 t g L)
  show ?case
  proof (cases "is_unmatched g")
    case False
    with "1.prems" show ?thesis by simp
  next
    case True
    show ?thesis
    proof (cases "idx_of_last_trade_same_day L t")
      case None
      with True "1.prems" show ?thesis by simp
    next
      case (Some i)
      with True "1.prems" obtain p L1
        where pop: "partial_pop_idx L i (count_unmatched g) = Inr (p, L1)"
          and rec: "same_day_tier t (g\<lparr>same_day := same_day g @ [p]\<rparr>) L1 = Inr (g', L')"
        by (auto split: sum.splits)
      from idx_of_last_trade_same_day_Some[OF Some] have "\<not> Date (L ! i) < Date t" by simp
      from partial_pop_idx_filter_date[OF pop, of "\<lambda>d. d < Date t", OF this]
        "1.IH"[OF True Some pop refl rec]
      show ?thesis by simp
    qed
  qed
qed

lemma within_month_tier_before:
  "within_month_tier t g L = Inr (g', L') \<Longrightarrow>
     filter (\<lambda>u. Date u < Date t) L' = filter (\<lambda>u. Date u < Date t) L"
proof (induction t g L rule: within_month_tier.induct)
  case (1 t g L)
  show ?case
  proof (cases "is_unmatched g")
    case False
    with "1.prems" show ?thesis by simp
  next
    case True
    show ?thesis
    proof (cases "idx_of_first_trade_next_30days L t")
      case None
      with True "1.prems" show ?thesis by simp
    next
      case (Some i)
      with True "1.prems" obtain p L1
        where pop: "partial_pop_idx L i (count_unmatched g) = Inr (p, L1)"
          and rec: "within_month_tier t (g\<lparr>within_month := within_month g @ [p]\<rparr>) L1
                      = Inr (g', L')"
        by (auto split: sum.splits)
      from idx_of_first_trade_next_30days_Some[OF Some] have "\<not> Date (L ! i) < Date t" by simp
      from partial_pop_idx_filter_date[OF pop, of "\<lambda>d. d < Date t", OF this]
        "1.IH"[OF True Some pop refl rec]
      show ?thesis by simp
    qed
  qed
qed

lemma filter_map_if:
  assumes "\<And>u. P (h u) = P u"
  shows "filter P (map (\<lambda>u. if P u then h u else u) L) = map h (filter P L)"
    and "filter (\<lambda>u. \<not> P u) (map (\<lambda>u. if P u then h u else u) L) = filter (\<lambda>u. \<not> P u) L"
  using assms by (induction L) simp_all

lemma s104_tier_rest:
  assumes "s104_tier t g L = Inr (g', L')"
  shows "filter (\<lambda>u. \<not> Date u < Date t) L' = filter (\<lambda>u. \<not> Date u < Date t) L"
proof (cases "is_unmatched g \<and> (\<exists>u\<in>set L. Date u < Date t)")
  case False
  with s104_tier_list[OF assms] show ?thesis by simp
next
  case True
  with s104_tier_list[OF assms] obtain share where
    L': "L' = (if share = 1 then filter (\<lambda>u. \<not> Date u < Date t) L
           else map (\<lambda>u. if Date u < Date t then snd (split_trade u share) else u) L)"
    by auto
  have d: "\<And>u. (Date (snd (split_trade u share)) < Date t) = (Date u < Date t)"
    by (simp add: split_trade_def)
  show ?thesis
  proof (cases "share = 1")
    case True
    with L' show ?thesis by simp
  next
    case False
    with L' filter_map_if(2)[of "\<lambda>u. Date u < Date t" "\<lambda>u. snd (split_trade u share)" L, OF d]
    show ?thesis by simp
  qed
qed

lemma s104_tier_pool:
  assumes "s104_tier t g L = Inr (g', L')" and "s104 g = []"
  shows "if s104 g' = [] then g' = g \<and> L' = L
         else (\<exists>share. 0 \<le> share \<and> share \<le> 1
                 \<and> s104 g' = map (\<lambda>u. fst (split_trade u share))
                                  (filter (\<lambda>u. Date u < Date t) L)
                 \<and> filter (\<lambda>u. Date u < Date t) L'
                     = (if share = 1 then []
                        else map (\<lambda>u. snd (split_trade u share))
                                 (filter (\<lambda>u. Date u < Date t) L)))"
proof (cases "is_unmatched g \<and> (\<exists>u\<in>set L. Date u < Date t)")
  case False
  with s104_tier_list[OF assms(1)] assms(2) show ?thesis by simp
next
  case True
  with s104_tier_list[OF assms(1)] obtain share where sh: "0 \<le> share" "share \<le> 1"
    and ps: "s104 g' = map (\<lambda>u. fst (split_trade u share)) (filter (\<lambda>u. Date u < Date t) L)"
    and L': "L' = (if share = 1 then filter (\<lambda>u. \<not> Date u < Date t) L
           else map (\<lambda>u. if Date u < Date t then snd (split_trade u share) else u) L)"
    by auto
  from True have "filter (\<lambda>u. Date u < Date t) L \<noteq> []" by (simp add: filter_empty_conv)
  with ps have ne: "s104 g' \<noteq> []" by simp
  have d: "\<And>u. (Date (snd (split_trade u share)) < Date t) = (Date u < Date t)"
    by (simp add: split_trade_def)
  have "filter (\<lambda>u. Date u < Date t) L'
          = (if share = 1 then []
             else map (\<lambda>u. snd (split_trade u share)) (filter (\<lambda>u. Date u < Date t) L))"
  proof (cases "share = 1")
    case True
    with L' show ?thesis by simp
  next
    case False
    with L' filter_map_if(1)[of "\<lambda>u. Date u < Date t" "\<lambda>u. snd (split_trade u share)" L, OF d]
    show ?thesis by simp
  qed
  with sh ps ne show ?thesis by auto
qed

lemma match_for_group_unfold:
  "match_for_group t CGTcalc L =
     (case (if CGTcalc
            then (case same_day_tier t (TaxCalcTradeGroup_init t) L of
                    Inl err \<Rightarrow> Inl err
                  | Inr (g1, L1) \<Rightarrow> within_month_tier t g1 L1)
            else Inr (TaxCalcTradeGroup_init t, L)) of
        Inl err \<Rightarrow> Inl err
      | Inr (g2, L2) \<Rightarrow>
          (case s104_tier t g2 L2 of
             Inl err \<Rightarrow> Inl err
           | Inr (g3, L3) \<Rightarrow>
               if is_unmatched g3
               then Inl (NoMatch (py_int (count_unmatched g3)) (closing_trade g3))
               else Inr (g3, L3)))"
  by (simp add: match_for_group_def apply_tiers_def cgt_tiers_def final_check_def
      split: sum.splits prod.splits)

lemma match_for_group_stages:
  assumes "match_for_group t CGTcalc L = Inr (g, L')"
  obtains g1 L1 g2 L2 where
    "if CGTcalc then same_day_tier t (TaxCalcTradeGroup_init t) L = Inr (g1, L1)
                     \<and> within_month_tier t g1 L1 = Inr (g2, L2)
     else g1 = TaxCalcTradeGroup_init t \<and> L1 = L \<and> g2 = g1 \<and> L2 = L"
    "s104_tier t g2 L2 = Inr (g, L')" "\<not> is_unmatched g"
  using assms unfolding match_for_group_unfold
  by (cases CGTcalc) (auto split: sum.splits if_splits)

lemma cgt_stage_facts:
  assumes s: "same_day_tier t (TaxCalcTradeGroup_init t) L = Inr (g1, L1)"
    and w: "within_month_tier t g1 L1 = Inr (g2, L2)"
  shows "s104 g2 = []"
    and "\<forall>p\<in>set (same_day g2). Date p = Date t \<and> opposite_side p t"
    and "\<forall>p\<in>set (within_month g2). Date t < Date p \<and> Date p \<le> Date t + 30 \<and> opposite_side p t"
    and "sorted (map Date (within_month g2))"
    and "(\<exists>u\<in>set L. Date u = Date t \<and> opposite_side u t) \<longrightarrow> same_day g2 \<noteq> []"
    and "is_unmatched g2 \<or> within_month g2 \<noteq> [] \<longrightarrow>
           (\<forall>u\<in>set L2. \<not> (Date u = Date t \<and> opposite_side u t))"
    and "is_unmatched g2 \<longrightarrow>
           (\<forall>u\<in>set L2. \<not> (Date t < Date u \<and> Date u \<le> Date t + 30 \<and> opposite_side u t))"
    and "filter (\<lambda>u. Date u < Date t) L2 = filter (\<lambda>u. Date u < Date t) L"
    and "final_position L2 + final_position (same_day g2) + final_position (within_month g2)
           = final_position L"
proof -
  note f1 = same_day_first[OF s]
  note f2 = within_month_second[OF s w]
  from f2 show "s104 g2 = []" by blast
  from f1 f2 show "\<forall>p\<in>set (same_day g2). Date p = Date t \<and> opposite_side p t" by simp
  from f2 show "\<forall>p\<in>set (within_month g2).
                  Date t < Date p \<and> Date p \<le> Date t + 30 \<and> opposite_side p t" by blast
  from f2 show "sorted (map Date (within_month g2))" by blast
  from same_day_tier_takes[OF s] f2
  show "(\<exists>u\<in>set L. Date u = Date t \<and> opposite_side u t) \<longrightarrow> same_day g2 \<noteq> []" by simp
  show "is_unmatched g2 \<or> within_month g2 \<noteq> [] \<longrightarrow>
           (\<forall>u\<in>set L2. \<not> (Date u = Date t \<and> opposite_side u t))"
  proof (intro impI ballI)
    fix u assume a: "is_unmatched g2 \<or> within_month g2 \<noteq> []" and u: "u \<in> set L2"
    have un1: "is_unmatched g1"
    proof (rule ccontr)
      assume n: "\<not> is_unmatched g1"
      from within_month_tier_matched[OF n, of t L1] w have "g2 = g1" by simp
      with a n f1 show False by simp
    qed
    show "\<not> (Date u = Date t \<and> opposite_side u t)"
    proof
      assume b: "Date u = Date t \<and> opposite_side u t"
      then have "\<not> (Date t < Date u \<and> Date u \<le> Date t + 30)" by simp
      from within_month_tier_keeps[OF w u this] have "u \<in> set L1" .
      with f1 un1 b show False by blast
    qed
  qed
  from f2 show "is_unmatched g2 \<longrightarrow>
           (\<forall>u\<in>set L2. \<not> (Date t < Date u \<and> Date u \<le> Date t + 30 \<and> opposite_side u t))"
    by blast
  from same_day_tier_before[OF s] within_month_tier_before[OF w]
  show "filter (\<lambda>u. Date u < Date t) L2 = filter (\<lambda>u. Date u < Date t) L" by simp
  from f1 have e: "within_month g1 = []" by blast
  from f2 have sd: "same_day g2 = same_day g1" by blast
  from same_day_tier_conserves[OF s] within_month_tier_conserves[OF w] e sd
  show "final_position L2 + final_position (same_day g2) + final_position (within_month g2)
           = final_position L"
    by (simp add: init_fields final_position_def)
qed

lemma match_for_group_tiers:
  assumes m: "match_for_group t CGTcalc L = Inr (g, L')"
  shows "\<not> CGTcalc \<longrightarrow> same_day g = [] \<and> within_month g = []
                        \<and> filter (\<lambda>u. \<not> Date u < Date t) L' = filter (\<lambda>u. \<not> Date u < Date t) L"
    and "\<forall>p\<in>set (same_day g). Date p = Date t \<and> opposite_side p t"
    and "\<forall>p\<in>set (within_month g). Date t < Date p \<and> Date p \<le> Date t + 30 \<and> opposite_side p t"
    and "sorted (map Date (within_month g))"
    and "CGTcalc \<longrightarrow> (\<exists>u\<in>set L. Date u = Date t \<and> opposite_side u t) \<longrightarrow> same_day g \<noteq> []"
    and "CGTcalc \<longrightarrow> within_month g \<noteq> [] \<or> s104 g \<noteq> [] \<longrightarrow>
           (\<forall>u\<in>set L'. \<not> (Date u = Date t \<and> opposite_side u t))"
    and "CGTcalc \<longrightarrow> s104 g \<noteq> [] \<longrightarrow>
           (\<forall>u\<in>set L'. \<not> (Date t < Date u \<and> Date u \<le> Date t + 30 \<and> opposite_side u t))"
    and "if s104 g = [] then filter (\<lambda>u. Date u < Date t) L' = filter (\<lambda>u. Date u < Date t) L
         else (\<exists>share. 0 \<le> share \<and> share \<le> 1
                 \<and> s104 g = map (\<lambda>u. fst (split_trade u share))
                                 (filter (\<lambda>u. Date u < Date t) L)
                 \<and> filter (\<lambda>u. Date u < Date t) L'
                     = (if share = 1 then []
                        else map (\<lambda>u. snd (split_trade u share))
                                 (filter (\<lambda>u. Date u < Date t) L)))"
    and "final_position (s104 g)
           = - (Quantity t + final_position (same_day g) + final_position (within_month g))"
    and "final_position L' + final_position (same_day g) + final_position (within_month g)
           + final_position (s104 g) = final_position L"
proof -
  from m obtain g1 L1 g2 L2 where
    st: "if CGTcalc then same_day_tier t (TaxCalcTradeGroup_init t) L = Inr (g1, L1)
                         \<and> within_month_tier t g1 L1 = Inr (g2, L2)
         else g1 = TaxCalcTradeGroup_init t \<and> L1 = L \<and> g2 = g1 \<and> L2 = L"
    and p: "s104_tier t g2 L2 = Inr (g, L')" and full: "\<not> is_unmatched g"
    by (rule match_for_group_stages)
  note pl = s104_tier_list[OF p]
  from pl have sd: "same_day g = same_day g2" and wm: "within_month g = within_month g2"
    and ct: "closing_trade g = closing_trade g2" by simp_all
  have un2: "is_unmatched g2" if "s104 g \<noteq> []" "s104 g2 = []"
  proof (rule ccontr)
    assume "\<not> is_unmatched g2"
    with pl have "g = g2" by simp
    with that show False by simp
  qed
  have e2: "s104 g2 = []"
    and a2: "\<forall>p\<in>set (same_day g2). Date p = Date t \<and> opposite_side p t"
    and b2: "\<forall>p\<in>set (within_month g2).
               Date t < Date p \<and> Date p \<le> Date t + 30 \<and> opposite_side p t"
    and c2: "sorted (map Date (within_month g2))"
    and d2: "filter (\<lambda>u. Date u < Date t) L2 = filter (\<lambda>u. Date u < Date t) L"
    and k2: "final_position L2 + final_position (same_day g2) + final_position (within_month g2)
               = final_position L"
    and t2: "closing_trade g2 = t"
  proof -
    show "s104 g2 = []" using st cgt_stage_facts(1)[of t L g1 L1 g2 L2]
      by (cases CGTcalc) (simp_all add: init_fields)
    show "\<forall>p\<in>set (same_day g2). Date p = Date t \<and> opposite_side p t"
      using st cgt_stage_facts(2)[of t L g1 L1 g2 L2]
      by (cases CGTcalc) (simp_all add: init_fields)
    show "\<forall>p\<in>set (within_month g2).
               Date t < Date p \<and> Date p \<le> Date t + 30 \<and> opposite_side p t"
      using st cgt_stage_facts(3)[of t L g1 L1 g2 L2]
      by (cases CGTcalc) (simp_all add: init_fields)
    show "sorted (map Date (within_month g2))"
      using st cgt_stage_facts(4)[of t L g1 L1 g2 L2]
      by (cases CGTcalc) (simp_all add: init_fields)
    show "filter (\<lambda>u. Date u < Date t) L2 = filter (\<lambda>u. Date u < Date t) L"
      using st cgt_stage_facts(8)[of t L g1 L1 g2 L2]
      by (cases CGTcalc) simp_all
    show "final_position L2 + final_position (same_day g2) + final_position (within_month g2)
               = final_position L"
      using st cgt_stage_facts(9)[of t L g1 L1 g2 L2]
      by (cases CGTcalc) (simp_all add: init_fields final_position_def)
    from match_for_group_Inr[THEN iffD1, OF m] have "apply_tiers t CGTcalc L = Inr (g, L')"
      by simp
    from apply_tiers_closing_trade[OF this] ct show "closing_trade g2 = t" by simp
  qed
  show "\<not> CGTcalc \<longrightarrow> same_day g = [] \<and> within_month g = []
                        \<and> filter (\<lambda>u. \<not> Date u < Date t) L' = filter (\<lambda>u. \<not> Date u < Date t) L"
    using st sd wm s104_tier_rest[OF p] by (cases CGTcalc) (simp_all add: init_fields)
  show "\<forall>p\<in>set (same_day g). Date p = Date t \<and> opposite_side p t" using a2 sd by simp
  show "\<forall>p\<in>set (within_month g). Date t < Date p \<and> Date p \<le> Date t + 30 \<and> opposite_side p t"
    using b2 wm by simp
  show "sorted (map Date (within_month g))" using c2 wm by simp
  show "CGTcalc \<longrightarrow> (\<exists>u\<in>set L. Date u = Date t \<and> opposite_side u t) \<longrightarrow> same_day g \<noteq> []"
    using st cgt_stage_facts(5)[of t L g1 L1 g2 L2] sd by (cases CGTcalc) simp_all
  show "CGTcalc \<longrightarrow> within_month g \<noteq> [] \<or> s104 g \<noteq> [] \<longrightarrow>
           (\<forall>u\<in>set L'. \<not> (Date u = Date t \<and> opposite_side u t))"
  proof (intro impI ballI)
    fix u assume cg: CGTcalc and a: "within_month g \<noteq> [] \<or> s104 g \<noteq> []" and u: "u \<in> set L'"
    from a wm un2 e2 have pre: "is_unmatched g2 \<or> within_month g2 \<noteq> []" by auto
    from cg st have s: "same_day_tier t (TaxCalcTradeGroup_init t) L = Inr (g1, L1)"
      and w: "within_month_tier t g1 L1 = Inr (g2, L2)" by simp_all
    show "\<not> (Date u = Date t \<and> opposite_side u t)"
    proof
      assume b: "Date u = Date t \<and> opposite_side u t"
      then have "\<not> Date u < Date t" by simp
      from s104_tier_keeps[OF p u this] have "u \<in> set L2" .
      with cgt_stage_facts(6)[OF s w] pre b show False by blast
    qed
  qed
  show "CGTcalc \<longrightarrow> s104 g \<noteq> [] \<longrightarrow>
           (\<forall>u\<in>set L'. \<not> (Date t < Date u \<and> Date u \<le> Date t + 30 \<and> opposite_side u t))"
  proof (intro impI ballI)
    fix u assume cg: CGTcalc and a: "s104 g \<noteq> []" and u: "u \<in> set L'"
    from un2[OF a e2] have pre: "is_unmatched g2" .
    from cg st have s: "same_day_tier t (TaxCalcTradeGroup_init t) L = Inr (g1, L1)"
      and w: "within_month_tier t g1 L1 = Inr (g2, L2)" by simp_all
    show "\<not> (Date t < Date u \<and> Date u \<le> Date t + 30 \<and> opposite_side u t)"
    proof
      assume b: "Date t < Date u \<and> Date u \<le> Date t + 30 \<and> opposite_side u t"
      then have "\<not> Date u < Date t" by simp
      from s104_tier_keeps[OF p u this] have "u \<in> set L2" .
      with cgt_stage_facts(7)[OF s w] pre b show False by blast
    qed
  qed
  show "if s104 g = [] then filter (\<lambda>u. Date u < Date t) L' = filter (\<lambda>u. Date u < Date t) L
         else (\<exists>share. 0 \<le> share \<and> share \<le> 1
                 \<and> s104 g = map (\<lambda>u. fst (split_trade u share))
                                 (filter (\<lambda>u. Date u < Date t) L)
                 \<and> filter (\<lambda>u. Date u < Date t) L'
                     = (if share = 1 then []
                        else map (\<lambda>u. snd (split_trade u share))
                                 (filter (\<lambda>u. Date u < Date t) L)))"
    using s104_tier_pool[OF p e2] d2 by (cases "s104 g = []") auto
  from matched_magnitude(1)[OF full] ct t2
  show "final_position (s104 g)
           = - (Quantity t + final_position (same_day g) + final_position (within_month g))"
    by simp
  from s104_tier_conserves[OF p e2] k2 sd wm
  show "final_position L' + final_position (same_day g) + final_position (within_month g)
           + final_position (s104 g) = final_position L"
    by simp
qed

section \<open>Matching a ledger\<close>

lemma pop_earliest_closing_trade_length:
  "pop_earliest_closing_trade L = (Some c, L1) \<Longrightarrow> length L1 < length L"
  by (auto simp: pop_earliest_closing_trade_def remove_idx_length idx_where_iff
      split: option.splits dest!: earliest_idx_mem)

text \<open>
  The first loop of \<^verbatim>\<open>allocate_trades\<close>. Its state is the ledger \<^verbatim>\<open>self.unmatched\<close>, the dict
  \<^verbatim>\<open>self.matched\<close> and the counter \<^verbatim>\<open>num_trades\<close>; an exception of \<^verbatim>\<open>match_for_group\<close> ends
  the run.
\<close>

function closing_loop ::
  "bool \<Rightarrow> Trade list \<Rightarrow> (int \<times> TaxCalcTradeGroup) list \<Rightarrow> int
     \<Rightarrow> error + (Trade list \<times> (int \<times> TaxCalcTradeGroup) list \<times> int)" where
  "closing_loop CGTcalc L M num_trades =
     (case pop_earliest_closing_trade L of
        (None, L0) \<Rightarrow> Inr (L0, M, num_trades)
      | (Some earliest_closing_trade, L1) \<Rightarrow>
          (case match_for_group earliest_closing_trade CGTcalc L1 of
             Inl err \<Rightarrow> Inl err
           | Inr (tax_calc_group, L2) \<Rightarrow>
               closing_loop CGTcalc L2 (AList.update num_trades tax_calc_group M)
                 (num_trades + 1)))"
  by pat_completeness auto
termination
proof (relation "measure (\<lambda>(c, L, M, n). length L)", goal_cases)
  case 1
  show ?case by simp
next
  case (2 c L M n x1 x2 t y g L2)
  then have "length x2 < length L" "shrinks L2 x2"
    using pop_earliest_closing_trade_length[of L t x2] match_for_group_shrinks[of t c x2 g L2]
    by auto
  then show ?case by (simp add: shrinks_def)
qed

text \<open>
  The second loop of \<^verbatim>\<open>allocate_trades\<close>: sort by date, \<^verbatim>\<open>pop()\<close> the last trade, make it
  a closing trade, match it.
\<close>

function leftover_loop ::
  "bool \<Rightarrow> Trade list \<Rightarrow> (int \<times> TaxCalcTradeGroup) list \<Rightarrow> int
     \<Rightarrow> error + (Trade list \<times> (int \<times> TaxCalcTradeGroup) list \<times> int)" where
  "leftover_loop CGTcalc L M num_trades =
     (if length L > 0 then
        (let sorted_L = date_sort L;
             trade_to_match = (last sorted_L)\<lparr>tradetype := Close\<rparr>
         in case match_for_group trade_to_match CGTcalc (butlast sorted_L) of
              Inl err \<Rightarrow> Inl err
            | Inr (tax_calc_group, L2) \<Rightarrow>
                leftover_loop CGTcalc L2 (AList.update num_trades tax_calc_group M)
                  (num_trades + 1))
      else Inr (L, M, num_trades))"
  by pat_completeness auto
termination
proof (relation "measure (\<lambda>(c, L, M, n). length L)", goal_cases)
  case 1
  show ?case by simp
next
  case (2 c L M n S t y g L2)
  then have "shrinks L2 (butlast (date_sort L))"
    using match_for_group_shrinks by blast
  then have "length L2 \<le> length L - 1" by (simp add: shrinks_def date_sort_def)
  moreover from 2 have "0 < length L" by simp
  ultimately have "length L2 < length L" by arith
  then show ?case by simp
qed

text \<open>
  \<^verbatim>\<open>TaxCalcElement.allocate_trades\<close>. The assertion after the second loop is the negation
  of the loop's condition.
\<close>

definition allocate_trades :: "TaxCalcElement \<Rightarrow> bool \<Rightarrow> error + TaxCalcElement" where
  "allocate_trades e CGTcalc =
     (case closing_loop CGTcalc (unmatched e) (matched e) 1 of
        Inl err \<Rightarrow> Inl err
      | Inr (L1, M1, num_trades) \<Rightarrow>
          if length L1 > 0 then
            (if final_position L1 = 0 then
               (case leftover_loop CGTcalc L1 M1 num_trades of
                  Inl err \<Rightarrow> Inl err
                | Inr (L2, M2, n2) \<Rightarrow>
                    if length L2 = 0 then Inr \<lparr>matched = M2, unmatched = L2\<rparr>
                    else Inl AssertionError)
             else Inr \<lparr>matched = M1, unmatched = L1\<rparr>)
          else Inr \<lparr>matched = M1, unmatched = L1\<rparr>)"

text \<open>
  \<^verbatim>\<open>TaxCalcDict.allocate_dict_trades\<close> runs \<^verbatim>\<open>allocate_trades\<close> on every element, in the
  dict's order; the first exception ends the run.
\<close>

definition allocate_dict_trades :: "TaxCalcDict \<Rightarrow> bool \<Rightarrow> error + TaxCalcDict" where
  "allocate_dict_trades d CGTcalc =
     collect (\<lambda>(code, taxelement).
                case allocate_trades taxelement CGTcalc of
                  Inl err \<Rightarrow> Inl err
                | Inr e \<Rightarrow> Inr (code, e)) d"

text \<open>Every group in the dict after a run was there before or was returned by a match.\<close>

lemma set_AList_update: "set (AList.update k v al) \<subseteq> insert (k, v) (set al)"
  by (induction al) auto

lemma closing_loop_groups:
  assumes "closing_loop cgt L M n = Inr (L', M', n')" and "(k, g) \<in> set M'"
  shows "(k, g) \<in> set M \<or> (\<exists>t L0 L1. match_for_group t cgt L0 = Inr (g, L1))"
  using assms
proof (induction cgt L M n rule: closing_loop.induct)
  case (1 cgt L M n)
  show ?case
  proof (cases "pop_earliest_closing_trade L")
    case (Pair o1 L1)
    show ?thesis
    proof (cases o1)
      case None
      with Pair "1.prems" show ?thesis by simp
    next
      case (Some c)
      with Pair "1.prems"(1) obtain g1 L2 where
        m: "match_for_group c cgt L1 = Inr (g1, L2)"
        and rec: "closing_loop cgt L2 (AList.update n g1 M) (n + 1) = Inr (L', M', n')"
        by (auto split: sum.splits)
      from "1.IH"[OF Pair[symmetric] Some m refl rec "1.prems"(2)]
      show ?thesis using m set_AList_update[of n g1 M] by blast
    qed
  qed
qed

lemma leftover_loop_groups:
  assumes "leftover_loop cgt L M n = Inr (L', M', n')" and "(k, g) \<in> set M'"
  shows "(k, g) \<in> set M \<or> (\<exists>t L0 L1. match_for_group t cgt L0 = Inr (g, L1))"
  using assms
proof (induction cgt L M n rule: leftover_loop.induct)
  case (1 cgt L M n)
  show ?case
  proof (cases "0 < length L")
    case False
    with "1.prems" show ?thesis by simp
  next
    case True
    define t where "t = (last (date_sort L))\<lparr>tradetype := Close\<rparr>"
    from True "1.prems"(1) obtain g1 L2 where
      m: "match_for_group t cgt (butlast (date_sort L)) = Inr (g1, L2)"
      and rec: "leftover_loop cgt L2 (AList.update n g1 M) (n + 1) = Inr (L', M', n')"
      by (auto simp: Let_def t_def split: sum.splits)
    from "1.IH"[OF True refl t_def m refl rec "1.prems"(2)]
    show ?thesis using m set_AList_update[of n g1 M] by blast
  qed
qed

lemma allocate_trades_groups:
  assumes "allocate_trades e cgt = Inr e'" and "(k, g) \<in> set (matched e')"
  shows "(k, g) \<in> set (matched e) \<or> (\<exists>t L0 L1. match_for_group t cgt L0 = Inr (g, L1))"
proof -
  from assms(1) obtain L1 M1 n1 where
    c: "closing_loop cgt (unmatched e) (matched e) 1 = Inr (L1, M1, n1)"
    by (auto simp: allocate_trades_def split: sum.splits)
  show ?thesis
  proof (cases "0 < length L1 \<and> final_position L1 = 0")
    case False
    with assms(1) c have "matched e' = M1" by (auto simp: allocate_trades_def split: if_splits)
    with closing_loop_groups[OF c] assms(2) show ?thesis by blast
  next
    case True
    with assms(1) c obtain L2 n2 where
      l: "leftover_loop cgt L1 M1 n1 = Inr (L2, matched e', n2)"
      by (auto simp: allocate_trades_def split: sum.splits if_splits)
    from leftover_loop_groups[OF l assms(2)] closing_loop_groups[OF c] show ?thesis by blast
  qed
qed

text \<open>What the two loops of \<open>allocate_trades\<close> do to the ledger and to the dict.\<close>

lemma pop_earliest_closing_trade_Some:
  assumes "pop_earliest_closing_trade L = (Some c, L1)"
  shows "c \<in> set L" and "tradetype c = Close"
    and "\<forall>u\<in>set L. tradetype u = Close \<longrightarrow> Date c \<le> Date u"
    and "length L1 + 1 = length L" and "set L1 \<subseteq> set L"
proof -
  let ?c = "idx_where (\<lambda>t. tradetype t = Close) L"
  from assms obtain i where e: "earliest_idx L ?c = Some i" and c: "c = L ! i"
    and L1: "L1 = remove_idx i L"
    by (auto simp: pop_earliest_closing_trade_def split: option.splits)
  from earliest_idx_mem[OF e] have i: "i < length L" "tradetype (L ! i) = Close"
    by (simp_all add: idx_where_iff)
  from i c show "c \<in> set L" "tradetype c = Close" by simp_all
  show "\<forall>u\<in>set L. tradetype u = Close \<longrightarrow> Date c \<le> Date u"
  proof (intro ballI impI)
    fix u assume "u \<in> set L" "tradetype u = Close"
    then obtain j where "j < length L" "L ! j = u" by (auto simp: in_set_conv_nth)
    with \<open>tradetype u = Close\<close> have "j \<in> set ?c" by (simp add: idx_where_iff)
    from earliest_idx_min[OF e this] c \<open>L ! j = u\<close> show "Date c \<le> Date u" by simp
  qed
  from i L1 show "length L1 + 1 = length L" by (simp add: remove_idx_length)
  from L1 show "set L1 \<subseteq> set L" by (simp add: set_remove_idx)
qed

lemma pop_earliest_closing_trade_None:
  assumes "pop_earliest_closing_trade L = (None, L0)"
  shows "L0 = L" and "\<forall>u\<in>set L. tradetype u \<noteq> Close"
proof -
  let ?c = "idx_where (\<lambda>t. tradetype t = Close) L"
  from assms have e: "earliest_idx L ?c = None" and "L0 = L"
    by (auto simp: pop_earliest_closing_trade_def split: option.splits)
  then show "L0 = L" by simp
  from e have "?c = []" by (simp add: earliest_idx_None)
  then have "\<forall>i. i \<notin> set ?c" by simp
  then show "\<forall>u\<in>set L. tradetype u \<noteq> Close"
    unfolding idx_where_iff by (metis in_set_conv_nth)
qed

lemma AList_update_fresh: "k \<notin> fst ` set M \<Longrightarrow> AList.update k v M = M @ [(k, v)]"
  by (induction M) auto

lemma upto_cons_next: "(n::int) < n' \<Longrightarrow> n # [n + 1..n' - 1] = [n..n' - 1]"
  by (simp add: upto_rec1)

lemma lot_key_fields:
  "lot_key a = lot_key b \<Longrightarrow> Date a = Date b \<and> tradetype a = tradetype b \<and> Code a = Code b
     \<and> Price a = Price b"
  by (simp add: lot_key_def)

lemma closing_loop_result:
  assumes "closing_loop cgt L M n = Inr (L', M', n')" and "\<forall>k\<in>fst ` set M. k < n"
  shows "\<exists>new. M' = M @ new \<and> map fst new = [n..n' - 1] \<and> n \<le> n'
           \<and> sorted (map (\<lambda>(k, g). Date (closing_trade g)) new)
           \<and> (\<forall>(k, g)\<in>set new. tradetype (closing_trade g) = Close
                 \<and> lot_key (closing_trade g) \<in> lot_key ` set L)
           \<and> (\<forall>u\<in>set L'. tradetype u \<noteq> Close)"
  using assms
proof (induction cgt L M n rule: closing_loop.induct)
  case (1 cgt L M n)
  show ?case
  proof (cases "pop_earliest_closing_trade L")
    case (Pair o1 L1)
    show ?thesis
    proof (cases o1)
      case None
      with Pair "1.prems"(1) have eq: "L' = L1" "M' = M" "n' = n" by simp_all
      from pop_earliest_closing_trade_None[OF Pair[unfolded None]] eq
      have "\<forall>u\<in>set L'. tradetype u \<noteq> Close" by simp
      with eq show ?thesis by simp
    next
      case (Some c)
      with Pair "1.prems"(1) obtain g1 L2 where
        m: "match_for_group c cgt L1 = Inr (g1, L2)"
        and rec: "closing_loop cgt L2 (AList.update n g1 M) (n + 1) = Inr (L', M', n')"
        by (auto split: sum.splits)
      note pop = pop_earliest_closing_trade_Some[OF Pair[unfolded Some]]
      from "1.prems"(2) have fresh: "n \<notin> fst ` set M" by auto
      have upd: "AList.update n g1 M = M @ [(n, g1)]" by (rule AList_update_fresh[OF fresh])
      have keys: "\<forall>k\<in>fst ` set (AList.update n g1 M). k < n + 1"
        using "1.prems"(2) unfolding upd by auto
      from "1.IH"[OF Pair[symmetric] Some m refl rec keys] obtain new where
        ih: "M' = AList.update n g1 M @ new" "map fst new = [n + 1..n' - 1]" "n + 1 \<le> n'"
            "sorted (map (\<lambda>(k, g). Date (closing_trade g)) new)"
            "\<forall>(k, g)\<in>set new. tradetype (closing_trade g) = Close
                 \<and> lot_key (closing_trade g) \<in> lot_key ` set L2"
            "\<forall>u\<in>set L'. tradetype u \<noteq> Close"
        by blast
      from m have ct: "closing_trade g1 = c"
        by (auto simp: match_for_group_Inr dest: apply_tiers_closing_trade)
      have sub: "lot_key ` set L2 \<subseteq> lot_key ` set L"
        using match_for_group_shrinks[OF m] pop(5) unfolding shrinks_def by blast
      have later: "Date c \<le> Date (closing_trade g)" if "(k, g) \<in> set new" for k g
      proof -
        from ih(5) that have cl: "tradetype (closing_trade g) = Close"
          and "lot_key (closing_trade g) \<in> lot_key ` set L2" by auto
        with sub obtain u where u: "u \<in> set L" "lot_key (closing_trade g) = lot_key u" by auto
        from lot_key_fields[OF u(2)] cl have "tradetype u = Close" "Date u = Date (closing_trade g)"
          by simp_all
        with pop(3) u(1) show ?thesis by auto
      qed
      let ?new = "(n, g1) # new"
      have a: "M' = M @ ?new" using ih(1) upd by simp
      have b: "map fst ?new = [n..n' - 1]" using ih(2,3) upto_cons_next[of n n'] by simp
      have c: "sorted (map (\<lambda>(k, g). Date (closing_trade g)) ?new)"
        using ih(4) later ct by auto
      have d: "\<forall>(k, g)\<in>set ?new. tradetype (closing_trade g) = Close
                 \<and> lot_key (closing_trade g) \<in> lot_key ` set L"
        using ih(5) sub ct pop(1,2) by auto
      from a b c d ih(3,6) show ?thesis by (intro exI[of _ ?new]) simp
    qed
  qed
qed

lemma leftover_loop_result:
  assumes "leftover_loop cgt L M n = Inr (L', M', n')" and "\<forall>k\<in>fst ` set M. k < n"
  shows "\<exists>new. M' = M @ new \<and> map fst new = [n..n' - 1] \<and> n \<le> n' \<and> L' = []
           \<and> (\<forall>(k, g)\<in>set new. tradetype (closing_trade g) = Close)"
  using assms
proof (induction cgt L M n rule: leftover_loop.induct)
  case (1 cgt L M n)
  show ?case
  proof (cases "0 < length L")
    case False
    with "1.prems"(1) show ?thesis by simp
  next
    case True
    define t where "t = (last (date_sort L))\<lparr>tradetype := Close\<rparr>"
    from True "1.prems"(1) obtain g1 L2 where
      m: "match_for_group t cgt (butlast (date_sort L)) = Inr (g1, L2)"
      and rec: "leftover_loop cgt L2 (AList.update n g1 M) (n + 1) = Inr (L', M', n')"
      by (auto simp: Let_def t_def split: sum.splits)
    from "1.prems"(2) have fresh: "n \<notin> fst ` set M" by auto
    have upd: "AList.update n g1 M = M @ [(n, g1)]" by (rule AList_update_fresh[OF fresh])
    have keys: "\<forall>k\<in>fst ` set (AList.update n g1 M). k < n + 1"
      using "1.prems"(2) unfolding upd by auto
    from "1.IH"[OF True refl t_def m refl rec keys] obtain new where
      ih: "M' = AList.update n g1 M @ new" "map fst new = [n + 1..n' - 1]" "n + 1 \<le> n'"
          "L' = []" "\<forall>(k, g)\<in>set new. tradetype (closing_trade g) = Close"
      by blast
    from m have ct: "closing_trade g1 = t"
      by (auto simp: match_for_group_Inr dest: apply_tiers_closing_trade)
    let ?new = "(n, g1) # new"
    have a: "M' = M @ ?new" using ih(1) upd by simp
    have b: "map fst ?new = [n..n' - 1]" using ih(2,3) upto_cons_next[of n n'] by simp
    have c: "\<forall>(k, g)\<in>set ?new. tradetype (closing_trade g) = Close"
      using ih(5) ct by (simp add: t_def)
    from a b c ih(3,4) show ?thesis by (intro exI[of _ ?new]) simp
  qed
qed

lemma upto_append_next:
  "(n::int) \<le> m \<Longrightarrow> m \<le> k \<Longrightarrow> [n..m - 1] @ [m..k - 1] = [n..k - 1]"
  using upto_split1[of n m "k - 1"] by (cases "m = k") auto

lemma sorted_le_last:
  fixes xs :: "int list"
  assumes "sorted xs" "x \<in> set xs"
  shows "x \<le> last xs"
proof -
  from assms(2) obtain i where i: "i < length xs" "xs ! i = x" by (auto simp: in_set_conv_nth)
  then have ne: "xs \<noteq> []" by auto
  from i have "i \<le> length xs - 1" by simp
  with assms(1) i ne have "xs ! i \<le> xs ! (length xs - 1)"
    by (intro sorted_nth_mono) simp_all
  with i ne show ?thesis by (simp add: last_conv_nth)
qed

lemma date_sort_last:
  assumes "L \<noteq> []"
  shows "last (date_sort L) \<in> set L" and "\<forall>u\<in>set L. Date u \<le> Date (last (date_sort L))"
    and "length (butlast (date_sort L)) + 1 = length L"
    and "set (butlast (date_sort L)) \<subseteq> set L"
proof -
  let ?S = "date_sort L"
  from assms have ne: "?S \<noteq> []" by (metis date_sort_def length_0_conv length_sort)
  have set: "set ?S = set L" by (simp add: date_sort_def)
  from ne set show "last ?S \<in> set L" using last_in_set by blast
  have srt: "sorted (map Date ?S)" by (simp add: date_sort_def)
  show "\<forall>u\<in>set L. Date u \<le> Date (last ?S)"
  proof
    fix u assume "u \<in> set L"
    with set have "Date u \<in> set (map Date ?S)" by auto
    from sorted_le_last[OF srt this] ne show "Date u \<le> Date (last ?S)" by (simp add: last_map)
  qed
  from assms have "0 < length L" by simp
  then show "length (butlast ?S) + 1 = length L" by (simp add: date_sort_def)
  from set show "set (butlast ?S) \<subseteq> set L" using in_set_butlastD by fastforce
qed

lemma leftover_loop_step:
  "L \<noteq> [] \<Longrightarrow> leftover_loop cgt L M n =
     (case match_for_group ((last (date_sort L))\<lparr>tradetype := Close\<rparr>) cgt
             (butlast (date_sort L)) of
        Inl err \<Rightarrow> Inl err
      | Inr (g, L2) \<Rightarrow> leftover_loop cgt L2 (AList.update n g M) (n + 1))"
  by (subst leftover_loop.simps) (simp add: Let_def)

lemma leftover_loop_Nil: "leftover_loop cgt [] M n = Inr ([], M, n)"
  by (subst leftover_loop.simps) simp

lemma leftover_loop_empties:
  "leftover_loop cgt L M n = Inr (L', M', n') \<Longrightarrow> L' = []"
proof (induction cgt L M n rule: leftover_loop.induct)
  case (1 cgt L M n)
  show ?case
  proof (cases "0 < length L")
    case False
    with "1.prems" show ?thesis by simp
  next
    case True
    define t where "t = (last (date_sort L))\<lparr>tradetype := Close\<rparr>"
    from True "1.prems" obtain g1 L3 where
      m: "match_for_group t cgt (butlast (date_sort L)) = Inr (g1, L3)"
      and rec: "leftover_loop cgt L3 (AList.update n g1 M) (n + 1) = Inr (L', M', n')"
      by (auto simp: Let_def t_def split: sum.splits)
    from "1.IH"[OF True refl t_def m refl rec] show ?thesis .
  qed
qed

lemma closing_loop_no_close:
  "closing_loop cgt L M n = Inr (L', M', n') \<Longrightarrow> \<forall>u\<in>set L'. tradetype u \<noteq> Close"
proof (induction cgt L M n rule: closing_loop.induct)
  case (1 cgt L M n)
  show ?case
  proof (cases "pop_earliest_closing_trade L")
    case (Pair o1 L1)
    show ?thesis
    proof (cases o1)
      case None
      with Pair "1.prems" have "L' = L1" by simp
      with pop_earliest_closing_trade_None[OF Pair[unfolded None]] show ?thesis by simp
    next
      case (Some c)
      with Pair "1.prems" obtain g1 L2 where
        m: "match_for_group c cgt L1 = Inr (g1, L2)"
        and rec: "closing_loop cgt L2 (AList.update n g1 M) (n + 1) = Inr (L', M', n')"
        by (auto split: sum.splits)
      from "1.IH"[OF Pair[symmetric] Some m refl rec] show ?thesis .
    qed
  qed
qed

lemma allocate_trades_phases:
  assumes "closing_loop cgt (unmatched e) (matched e) 1 = Inr (L1, M1, n1)"
  shows "L1 = [] \<or> final_position L1 \<noteq> 0 \<Longrightarrow>
           allocate_trades e cgt = Inr \<lparr>matched = M1, unmatched = L1\<rparr>"
    and "L1 \<noteq> [] \<and> final_position L1 = 0 \<Longrightarrow>
           allocate_trades e cgt =
             (case leftover_loop cgt L1 M1 n1 of
                Inl err \<Rightarrow> Inl err
              | Inr (L2, M2, n2) \<Rightarrow> Inr \<lparr>matched = M2, unmatched = L2\<rparr>)"
proof -
  assume "L1 = [] \<or> final_position L1 \<noteq> 0"
  with assms show "allocate_trades e cgt = Inr \<lparr>matched = M1, unmatched = L1\<rparr>"
    by (auto simp: allocate_trades_def)
next
  assume a: "L1 \<noteq> [] \<and> final_position L1 = 0"
  show "allocate_trades e cgt =
             (case leftover_loop cgt L1 M1 n1 of
                Inl err \<Rightarrow> Inl err
              | Inr (L2, M2, n2) \<Rightarrow> Inr \<lparr>matched = M2, unmatched = L2\<rparr>)"
  proof (cases "leftover_loop cgt L1 M1 n1")
    case (Inl err)
    with assms a show ?thesis by (simp add: allocate_trades_def)
  next
    case (Inr r)
    obtain L2 M2 n2 where r: "r = (L2, M2, n2)" by (cases r) auto
    from Inr r have l: "leftover_loop cgt L1 M1 n1 = Inr (L2, M2, n2)" by simp
    from leftover_loop_empties[OF l] have "L2 = []" .
    then have "L2 = []" .
    with assms a l show ?thesis by (simp add: allocate_trades_def)
  qed
qed

lemma allocate_trades_fresh:
  assumes "matched e = []" and "allocate_trades e cgt = Inr e'"
  shows "\<exists>L1 M1 n1 new n2. closing_loop cgt (unmatched e) [] 1 = Inr (L1, M1, n1)
           \<and> matched e' = M1 @ new \<and> map fst M1 = [1..n1 - 1]
           \<and> map fst (matched e') = [1..n2 - 1]
           \<and> sorted (map (\<lambda>(k, g). Date (closing_trade g)) M1)"
proof -
  from assms obtain L1 M1 n1 where
    c: "closing_loop cgt (unmatched e) [] 1 = Inr (L1, M1, n1)"
    by (auto simp: allocate_trades_def split: sum.splits)
  have k0: "\<forall>k\<in>fst ` set ([] :: (int \<times> TaxCalcTradeGroup) list). k < 1" by simp
  from closing_loop_result[OF c k0] have
    r1: "map fst M1 = [1..n1 - 1]" "1 \<le> n1" "sorted (map (\<lambda>(k, g). Date (closing_trade g)) M1)"
    by auto
  from c assms(1) have c': "closing_loop cgt (unmatched e) (matched e) 1 = Inr (L1, M1, n1)"
    by simp
  show ?thesis
  proof (cases "L1 \<noteq> [] \<and> final_position L1 = 0")
    case False
    then have "L1 = [] \<or> final_position L1 \<noteq> 0" by blast
    from allocate_trades_phases(1)[OF c' this] assms(2) have "matched e' = M1 @ []" by auto
    with c r1 show ?thesis
      by (intro exI[of _ L1] exI[of _ M1] exI[of _ n1] exI[of _ "[]"] exI[of _ n1]) simp
  next
    case True
    from allocate_trades_phases(2)[OF c' True] assms(2) obtain L2 M2 n2 where
      l: "leftover_loop cgt L1 M1 n1 = Inr (L2, M2, n2)" and m: "matched e' = M2"
      by (auto split: sum.splits)
    have k1: "\<forall>k\<in>fst ` set M1. k < n1"
    proof
      fix k assume "k \<in> fst ` set M1"
      then have "k \<in> set (map fst M1)" by simp
      with r1(1) show "k < n1" by simp
    qed
    from leftover_loop_result[OF l k1] obtain new where
      n: "M2 = M1 @ new" "map fst new = [n1..n2 - 1]" "n1 \<le> n2" by blast
    have "map fst M2 = [1..n2 - 1]"
      using n r1(1,2) upto_append_next[of 1 n1 n2] by simp
    with c r1 n m show ?thesis
      by (intro exI[of _ L1] exI[of _ M1] exI[of _ n1] exI[of _ new] exI[of _ n2]) simp
  qed
qed

text \<open>The order of a dict's entries, and a second run on the result of a first.\<close>

lemma collect_Inr_iff:
  "collect f xs = Inr ys \<longleftrightarrow> list_all2 (\<lambda>x y. f x = Inr y) xs ys"
proof (induction xs arbitrary: ys)
  case Nil
  show ?case by auto
next
  case (Cons x xs)
  show ?case
  proof (cases "f x")
    case (Inl err)
    then show ?thesis by (auto simp: list_all2_Cons1)
  next
    case (Inr y)
    show ?thesis
    proof (cases "collect f xs")
      case (Inl err)
      with Inr Cons.IH show ?thesis by (auto simp: list_all2_Cons1)
    next
      case r: (Inr zs)
      with Inr Cons.IH show ?thesis by (auto simp: list_all2_Cons1)
    qed
  qed
qed

lemma collect_Inl_iff:
  "(\<exists>err. collect f xs = Inl err) \<longleftrightarrow> (\<exists>x\<in>set xs. \<exists>err. f x = Inl err)"
  by (induction xs) (auto split: sum.splits)

text \<open>What the comprehension of \<open>allocate_dict_trades\<close> does with one entry.\<close>

definition allocate_entry :: "bool \<Rightarrow> string \<times> TaxCalcElement \<Rightarrow> error + (string \<times> TaxCalcElement)" where
  "allocate_entry cgt = (\<lambda>(code, taxelement).
                case allocate_trades taxelement cgt of
                  Inl err \<Rightarrow> Inl err
                | Inr e \<Rightarrow> Inr (code, e))"

lemma allocate_dict_trades_collect:
  "allocate_dict_trades d cgt = collect (allocate_entry cgt) d"
  by (simp add: allocate_dict_trades_def allocate_entry_def)

lemma allocate_entry_key: "allocate_entry cgt x = Inr y \<Longrightarrow> fst y = fst x"
  by (cases x) (auto simp: allocate_entry_def split: sum.splits)

lemma list_all2_fun_set:
  assumes "list_all2 (\<lambda>x y. f x = Inr y) xs ys"
  shows "set ys = {y. \<exists>x\<in>set xs. f x = Inr y}" and "map fst ys = map (\<lambda>x. fst (projr (f x))) xs"
  using assms by (induction xs ys rule: list_all2_induct) auto

lemma allocate_dict_trades_order:
  assumes d1: "distinct (map fst d1)" and d2: "distinct (map fst d2)" and s: "set d1 = set d2"
  shows "(\<exists>err. allocate_dict_trades d1 cgt = Inl err)
           \<longleftrightarrow> (\<exists>err. allocate_dict_trades d2 cgt = Inl err)"
    and "allocate_dict_trades d1 cgt = Inr r1 \<Longrightarrow> allocate_dict_trades d2 cgt = Inr r2
           \<Longrightarrow> map_of r1 = map_of r2"
proof -
  show "(\<exists>err. allocate_dict_trades d1 cgt = Inl err)
           \<longleftrightarrow> (\<exists>err. allocate_dict_trades d2 cgt = Inl err)"
    unfolding allocate_dict_trades_collect collect_Inl_iff s ..
next
  assume "allocate_dict_trades d1 cgt = Inr r1" "allocate_dict_trades d2 cgt = Inr r2"
  then have a1: "list_all2 (\<lambda>x y. allocate_entry cgt x = Inr y) d1 r1"
    and a2: "list_all2 (\<lambda>x y. allocate_entry cgt x = Inr y) d2 r2"
    by (simp_all add: allocate_dict_trades_collect collect_Inr_iff)
  have keys: "map fst r = map fst d"
    if "list_all2 (\<lambda>x y. allocate_entry cgt x = Inr y) d r" for d r
    using that by (induction d r rule: list_all2_induct) (auto dest: allocate_entry_key)
  from keys[OF a1] d1 have k1: "distinct (map fst r1)" by simp
  from keys[OF a2] d2 have k2: "distinct (map fst r2)" by simp
  from list_all2_fun_set(1)[OF a1] list_all2_fun_set(1)[OF a2] s have "set r1 = set r2" by simp
  with k1 k2 show "map_of r1 = map_of r2" by (simp add: map_of_inject_set)
qed

lemma pop_earliest_closing_trade_no_close:
  assumes "\<forall>u\<in>set L. tradetype u \<noteq> Close"
  shows "pop_earliest_closing_trade L = (None, L)"
proof -
  have "idx_where (\<lambda>t. tradetype t = Close) L = []"
  proof (rule ccontr)
    assume "idx_where (\<lambda>t. tradetype t = Close) L \<noteq> []"
    then obtain i where "i \<in> set (idx_where (\<lambda>t. tradetype t = Close) L)"
      by (meson last_in_set)
    then have "i < length L" "tradetype (L ! i) = Close" by (simp_all add: idx_where_iff)
    with assms show False by (metis nth_mem)
  qed
  then show ?thesis by (simp add: pop_earliest_closing_trade_def)
qed

lemma allocate_trades_final_ledger:
  assumes "allocate_trades e cgt = Inr e'"
  shows "\<forall>u\<in>set (unmatched e'). tradetype u \<noteq> Close"
    and "unmatched e' = [] \<or> final_position (unmatched e') \<noteq> 0"
proof -
  from assms obtain L1 M1 n1 where
    c: "closing_loop cgt (unmatched e) (matched e) 1 = Inr (L1, M1, n1)"
    by (auto simp: allocate_trades_def split: sum.splits)
  note nc = closing_loop_no_close[OF c]
  have "(\<forall>u\<in>set (unmatched e'). tradetype u \<noteq> Close)
        \<and> (unmatched e' = [] \<or> final_position (unmatched e') \<noteq> 0)"
  proof (cases "L1 \<noteq> [] \<and> final_position L1 = 0")
    case False
    then have h: "L1 = [] \<or> final_position L1 \<noteq> 0" by blast
    from allocate_trades_phases(1)[OF c h] assms have "unmatched e' = L1" by auto
    with nc h show ?thesis by simp
  next
    case True
    from allocate_trades_phases(2)[OF c True] assms obtain L2 M2 n2 where
      l: "leftover_loop cgt L1 M1 n1 = Inr (L2, M2, n2)" and u: "unmatched e' = L2"
      by (auto split: sum.splits)
    from leftover_loop_empties[OF l] u show ?thesis by simp
  qed
  then show "\<forall>u\<in>set (unmatched e'). tradetype u \<noteq> Close"
    and "unmatched e' = [] \<or> final_position (unmatched e') \<noteq> 0" by blast+
qed

lemma allocate_trades_idempotent:
  assumes "allocate_trades e cgt = Inr e'"
  shows "allocate_trades e' cgt2 = Inr e'"
proof -
  note f = allocate_trades_final_ledger[OF assms]
  have c: "closing_loop cgt2 (unmatched e') (matched e') 1
             = Inr (unmatched e', matched e', 1)"
    by (subst closing_loop.simps) (simp add: pop_earliest_closing_trade_no_close[OF f(1)])
  from allocate_trades_phases(1)[OF c f(2)] show ?thesis by simp
qed

section \<open>Trade lists as objects\<close>





















section \<open>Examples used by the concrete instances\<close>

definition trade :: "string \<Rightarrow> int \<Rightarrow> rat \<Rightarrow> rat \<Rightarrow> rat \<Rightarrow> TradeType \<Rightarrow> Trade" where
  "trade c d q p k ty =
     \<lparr>Code = c, Date = d, Quantity = q, Price = p, Commission = k, tradetype = ty\<rparr>"

text \<open>
  A stand-in for \<^verbatim>\<open>group_display_taxes\<close> in the concrete instances only: the zero tuple for
  a group whose closing trade lies outside the year (a year is 365 days here), otherwise
  the closing trade's commission and absolute quantity and the zero net profit.
\<close>

definition example_display :: group_display_taxes where
  "example_display g taxyear CGTCalc reportinglevel groupid =
     (if Date (closing_trade g) div 365 = taxyear
      then zero_tax_tuple\<lparr>gbp_commissions := Commission (closing_trade g),
                          abs_quantity := \<bar>Quantity (closing_trade g)\<bar>\<rparr>
      else zero_tax_tuple)"

definition example_closing :: Trade where
  "example_closing = trade ''A'' 10 (-150) 12 5 Close"

definition example_ledger :: "Trade list" where
  "example_ledger =
     [trade ''A'' 1 100 10 4 Open, trade ''A'' 2 200 11 8 Open,
      trade ''A'' 10 30 12 3 Open, trade ''A'' 15 40 12 4 Open]"

definition example_two_closes :: "Trade list" where
  "example_two_closes =
     [trade ''A'' 1 100 10 0 Open, trade ''A'' 9 (-40) 12 0 Close,
      trade ''A'' 5 (-60) 11 0 Close]"



section \<open>Construction rejects mixed codes\<close>

lemma check_same_code_iff:
  "check_same_code L \<longleftrightarrow> (\<forall>t\<in>set L. \<forall>u\<in>set L. Code t = Code u)"
  by (cases L) (auto simp: list_all_iff)

text \<open>
  Claim C7. A trade list with two trades of different codes makes the constructor fail
  (its assertion raises); a list whose trades all share one code is accepted, with an
  empty \<open>matched\<close> and the list as \<open>unmatched\<close>; so every constructed element holds
  trades of one code only.
\<close>

theorem TaxCalcElement_init_rejects_mixed_codes:
  "((\<exists>t\<in>set L. \<exists>u\<in>set L. Code t \<noteq> Code u) \<longrightarrow> TaxCalcElement_init L = Inl AssertionError)
   \<and> ((\<forall>t\<in>set L. \<forall>u\<in>set L. Code t = Code u) \<longrightarrow>
        TaxCalcElement_init L = Inr \<lparr>matched = [], unmatched = L\<rparr>)
   \<and> (\<forall>e. TaxCalcElement_init L = Inr e \<longrightarrow>
        matched e = [] \<and> unmatched e = L
        \<and> (\<forall>t\<in>set (unmatched e). \<forall>u\<in>set (unmatched e). Code t = Code u))"
proof (cases "check_same_code L")
  case True
  then have same: "\<forall>t\<in>set L. \<forall>u\<in>set L. Code t = Code u"
    using check_same_code_iff[of L] by blast
  have init: "TaxCalcElement_init L = Inr \<lparr>matched = [], unmatched = L\<rparr>"
    using True by (simp add: TaxCalcElement_init_def)
  have "\<forall>e. TaxCalcElement_init L = Inr e \<longrightarrow>
          matched e = [] \<and> unmatched e = L
          \<and> (\<forall>t\<in>set (unmatched e). \<forall>u\<in>set (unmatched e). Code t = Code u)"
  proof (intro allI impI)
    fix e assume "TaxCalcElement_init L = Inr e"
    with init have e: "e = \<lparr>matched = [], unmatched = L\<rparr>" by simp
    have "matched e = []" "unmatched e = L" unfolding e by simp_all
    with same show "matched e = [] \<and> unmatched e = L
          \<and> (\<forall>t\<in>set (unmatched e). \<forall>u\<in>set (unmatched e). Code t = Code u)"
      by blast
  qed
  with same init show ?thesis by blast
next
  case False
  then have mixed: "\<not> (\<forall>t\<in>set L. \<forall>u\<in>set L. Code t = Code u)"
    using check_same_code_iff[of L] by blast
  have init: "TaxCalcElement_init L = Inl AssertionError"
    using False by (simp add: TaxCalcElement_init_def)
  have "\<forall>e. TaxCalcElement_init L \<noteq> Inr e" unfolding init by simp
  with mixed init show ?thesis by blast
qed

theorem TaxCalcElement_init_rejects_mixed_codes_witness:
  "TaxCalcElement_init [trade ''A'' 1 100 10 5 Open, trade ''B'' 2 (-100) 12 5 Close]
     = Inl AssertionError
   \<and> TaxCalcElement_init [trade ''A'' 1 100 10 5 Open, trade ''A'' 2 (-100) 12 5 Close]
       = Inr \<lparr>matched = [],
              unmatched = [trade ''A'' 1 100 10 5 Open, trade ''A'' 2 (-100) 12 5 Close]\<rparr>"
proof -
  have mixed: "\<exists>t\<in>set [trade ''A'' 1 100 10 5 Open, trade ''B'' 2 (-100) 12 5 Close].
               \<exists>u\<in>set [trade ''A'' 1 100 10 5 Open, trade ''B'' 2 (-100) 12 5 Close].
                 Code t \<noteq> Code u"
  proof -
    have "\<not> check_same_code [trade ''A'' 1 100 10 5 Open, trade ''B'' 2 (-100) 12 5 Close]"
      by (simp add: trade_def)
    then show ?thesis
      using check_same_code_iff
              [of "[trade ''A'' 1 100 10 5 Open, trade ''B'' 2 (-100) 12 5 Close]"]
      by blast
  qed
  have same: "\<forall>t\<in>set [trade ''A'' 1 100 10 5 Open, trade ''A'' 2 (-100) 12 5 Close].
              \<forall>u\<in>set [trade ''A'' 1 100 10 5 Open, trade ''A'' 2 (-100) 12 5 Close].
                Code t = Code u"
  proof -
    have "check_same_code [trade ''A'' 1 100 10 5 Open, trade ''A'' 2 (-100) 12 5 Close]"
      by (simp add: trade_def)
    then show ?thesis
      using check_same_code_iff
              [of "[trade ''A'' 1 100 10 5 Open, trade ''A'' 2 (-100) 12 5 Close]"]
      by blast
  qed
  from mixed TaxCalcElement_init_rejects_mixed_codes
         [of "[trade ''A'' 1 100 10 5 Open, trade ''B'' 2 (-100) 12 5 Close]"]
  have "TaxCalcElement_init [trade ''A'' 1 100 10 5 Open, trade ''B'' 2 (-100) 12 5 Close]
          = Inl AssertionError"
    by blast
  moreover from same TaxCalcElement_init_rejects_mixed_codes
         [of "[trade ''A'' 1 100 10 5 Open, trade ''A'' 2 (-100) 12 5 Close]"]
  have "TaxCalcElement_init [trade ''A'' 1 100 10 5 Open, trade ''A'' 2 (-100) 12 5 Close]
          = Inr \<lparr>matched = [],
                 unmatched = [trade ''A'' 1 100 10 5 Open, trade ''A'' 2 (-100) 12 5 Close]\<rparr>"
    by blast
  ultimately show ?thesis by (rule conjI)
qed

section \<open>Average commission\<close>

text \<open>
  Claim C8. With the total commission and the total quantity of the element's groups for
  the year: when the total quantity is not zero the result is the total commission
  divided by twice the total quantity; when it is zero the result is not-a-number if the
  total commission is zero too, and zero otherwise. In no case does the call raise: the
  division is never reached with a zero divisor.
\<close>

theorem average_commission_guarded:
  "average_commission gdt e taxyear =
     (let total_comm = sum_list (map gbp_commissions (taxdata_of gdt e taxyear True []));
          total_quant = sum_list (map abs_quantity (taxdata_of gdt e taxyear True []))
      in if total_quant \<noteq> 0 then Inr (Val (total_comm / (2 * total_quant)))
         else if total_comm = 0 then Inr NaN
         else Inr (Val 0))"
  by (simp add: average_commission_def py_div_def Let_def)

theorem average_commission_guarded_witness:
  "average_commission example_display
     \<lparr>matched = [(1, TaxCalcTradeGroup_init (trade ''A'' 3 (-100) 12 5 Close))], unmatched = []\<rparr> 0
     = Inr (Val (1 / 40))
   \<and> average_commission example_display \<lparr>matched = [], unmatched = []\<rparr> 0 = Inr NaN
   \<and> average_commission example_display
       \<lparr>matched = [(1, TaxCalcTradeGroup_init (trade ''A'' 3 0 12 5 Close))], unmatched = []\<rparr> 0
       = Inr (Val 0)"
  by (simp add: average_commission_guarded taxdata_of_def example_display_def trade_def
      TaxCalcTradeGroup_init_def zero_tax_tuple_def)

section \<open>The report of a code without groups\<close>

lemma tuple_add_zero: "tuple_add zero_tax_tuple zero_tax_tuple = zero_tax_tuple"
  by (simp add: tuple_add_def zero_tax_tuple_def)

lemma sum_taxdata_zero:
  "(\<And>x. x \<in> set xs \<Longrightarrow> x = zero_tax_tuple) \<Longrightarrow> sum_taxdata xs = zero_tax_tuple"
proof (induction xs)
  case Nil
  show ?case by simp
next
  case (Cons x xs)
  then have "x = zero_tax_tuple" "sum_taxdata xs = zero_tax_tuple" by simp_all
  then show ?case by (simp only: sum_taxdata.simps tuple_add_zero)
qed

text \<open>
  Claim C9. \<open>display_taxes_for_code\<close> on an element whose \<open>matched\<close> dict is empty returns
  the zero tuple; it does so too when every group of the element reports the zero tuple
  for the year asked (no group closes in that year). The function has no failing branch.
\<close>

theorem display_taxes_for_code_no_groups:
  "(matched e = [] \<longrightarrow> display_taxes_for_code gdt e taxyear CGTCalc reportinglevel = zero_tax_tuple)
   \<and> ((\<forall>(groupid, g)\<in>set (matched e). gdt g taxyear CGTCalc reportinglevel groupid = zero_tax_tuple)
        \<longrightarrow> display_taxes_for_code gdt e taxyear CGTCalc reportinglevel = zero_tax_tuple)"
proof (intro conjI impI)
  assume "matched e = []"
  then show "display_taxes_for_code gdt e taxyear CGTCalc reportinglevel = zero_tax_tuple"
    by (simp add: display_taxes_for_code_def taxdata_of_def)
next
  assume z: "\<forall>(groupid, g)\<in>set (matched e). gdt g taxyear CGTCalc reportinglevel groupid = zero_tax_tuple"
  have "x = zero_tax_tuple" if "x \<in> set (taxdata_of gdt e taxyear CGTCalc reportinglevel)" for x
  proof -
    from that obtain groupid where k: "groupid \<in> fst ` set (matched e)"
      and x: "x = gdt (the (map_of (matched e) groupid)) taxyear CGTCalc reportinglevel groupid"
      by (auto simp: taxdata_of_def)
    from k obtain g where g: "map_of (matched e) groupid = Some g"
      by (metis domD dom_map_of_conv_image_fst)
    then have "(groupid, g) \<in> set (matched e)" by (rule map_of_SomeD)
    with z have "gdt g taxyear CGTCalc reportinglevel groupid = zero_tax_tuple" by blast
    with x g show ?thesis by simp
  qed
  then have "sum_taxdata (taxdata_of gdt e taxyear CGTCalc reportinglevel) = zero_tax_tuple"
    by (rule sum_taxdata_zero)
  then show "display_taxes_for_code gdt e taxyear CGTCalc reportinglevel = zero_tax_tuple"
    by (simp add: display_taxes_for_code_def Let_def)
qed

theorem display_taxes_for_code_no_groups_witness:
  "display_taxes_for_code example_display \<lparr>matched = [], unmatched = []\<rparr> 2022 True ''BRIEF''
     = zero_tax_tuple
   \<and> display_taxes_for_code example_display
       \<lparr>matched = [(1, TaxCalcTradeGroup_init (trade ''A'' 3 (-100) 12 5 Close))], unmatched = []\<rparr>
       2022 True ''BRIEF'' = zero_tax_tuple"
proof -
  have a: "matched \<lparr>matched = [], unmatched = []\<rparr> = []" by simp
  have b: "\<forall>(groupid, g)\<in>set (matched
              \<lparr>matched = [(1, TaxCalcTradeGroup_init (trade ''A'' 3 (-100) 12 5 Close))],
               unmatched = []\<rparr>).
             example_display g 2022 True ''BRIEF'' groupid = zero_tax_tuple"
    by (simp add: example_display_def trade_def TaxCalcTradeGroup_init_def)
  from a display_taxes_for_code_no_groups
         [of "\<lparr>matched = [], unmatched = []\<rparr>" example_display 2022 True "''BRIEF''"]
  have "display_taxes_for_code example_display \<lparr>matched = [], unmatched = []\<rparr> 2022 True ''BRIEF''
          = zero_tax_tuple"
    by blast
  moreover from b display_taxes_for_code_no_groups
         [of "\<lparr>matched = [(1, TaxCalcTradeGroup_init (trade ''A'' 3 (-100) 12 5 Close))],
               unmatched = []\<rparr>" example_display 2022 True "''BRIEF''"]
  have "display_taxes_for_code example_display
          \<lparr>matched = [(1, TaxCalcTradeGroup_init (trade ''A'' 3 (-100) 12 5 Close))], unmatched = []\<rparr>
          2022 True ''BRIEF'' = zero_tax_tuple"
    by blast
  ultimately show ?thesis by (rule conjI)
qed

section \<open>Win and loss statistics are not reached\<close>

text \<open>
  The body of \<open>win_loss_ratio_etc\<close> splits a list of profits as intended: wins are the
  positive profits, losses the negative ones, a zero profit is in neither, and each average
  is the mean of its own bucket.
\<close>

lemma win_loss_of_partition:
  "win_loss_of ps = (avg_win, avg_loss, count_wins, count_losses) \<Longrightarrow>
     count_wins = length (filter (\<lambda>x. 0 < x) ps)
     \<and> count_losses = length (filter (\<lambda>x. x < 0) ps)
     \<and> count_wins + count_losses + length (filter (\<lambda>x. x = 0) ps) = length ps
     \<and> avg_win = np_mean (filter (\<lambda>x. 0 < x) ps)
     \<and> avg_loss = np_mean (filter (\<lambda>x. x < 0) ps)"
proof -
  have "length (filter (\<lambda>x. 0 < x) ps) + length (filter (\<lambda>x. x < 0) ps)
          + length (filter (\<lambda>x. x = 0) ps) = length ps"
    by (induction ps) auto
  moreover assume "win_loss_of ps = (avg_win, avg_loss, count_wins, count_losses)"
  ultimately show ?thesis by (auto simp: win_loss_of_def Let_def)
qed

lemma sort_not_Nil: "xs \<noteq> [] \<Longrightarrow> sort xs \<noteq> []"
  by (metis length_sort length_0_conv)

lemma win_loss_ratio_etc_nonempty:
  "d \<noteq> [] \<Longrightarrow> win_loss_ratio_etc gdt d tax_year = Inl AttributeError"
proof -
  assume "d \<noteq> []"
  then have "sorted_codes d \<noteq> []" by (simp add: sorted_codes_def sort_not_Nil)
  then obtain c cs where "sorted_codes d = c # cs" by (cases "sorted_codes d") auto
  then show ?thesis
    by (simp add: win_loss_ratio_etc_def dict_individual_profits_def individual_profits_def)
qed

text \<open>
  Claim C10. The profits never reach that body: for a dict with one code, even one with
  no match group, \<open>win_loss_ratio_etc\<close> ends with the AttributeError of
  \<open>individual_profits\<close>, and returns no averages and no counts.
\<close>

theorem win_loss_ratio_etc_raises:
  "win_loss_ratio_etc gdt [(''A'', \<lparr>matched = [], unmatched = []\<rparr>)] 2022 = Inl AttributeError"
  by (rule win_loss_ratio_etc_nonempty) simp

section \<open>The three tiers and their order\<close>

text \<open>
  Claim C1. \<open>match_for_group\<close> on a closing trade, a toggle and a ledger is: the same-day
  loop and then the 30-day loop on its result when the toggle is set, neither when it is
  not; then the S104 block on what they leave, in either case; then the check that the
  group is matched. For every group it returns: with the toggle off \<open>same_day\<close> and
  \<open>within_month\<close> are empty and the trades of the ledger that are not dated before the
  closing trade are left as they were. The pieces in \<open>same_day\<close> are of the closing trade's
  date and of the opposite side; those in \<open>within_month\<close> are of the opposite side, dated
  after the closing trade and at most 30 days later (the last day of the window is read as
  included), in date order. With the toggle on, a ledger that holds an opposite-side trade
  of the closing trade's date gives a group with a same-day piece; a group with a 30-day or
  a pooled piece leaves no opposite-side trade of the closing trade's date in the ledger,
  and a group with a pooled piece leaves no opposite-side trade of the 30-day window: a
  later tier takes only what the earlier ones could not. With either toggle the pooled
  pieces are the same share of every trade of the ledger dated before the closing trade,
  the ledger keeps the remainders of these, and when there is no pooled piece these trades
  are left as they were; the pooled quantity is what the other two lists leave of the
  closing trade's quantity, and the quantity of the ledger before is that of the ledger
  after plus that of the three lists.
\<close>

theorem match_for_group_three_tiers:
  "match_for_group t CGTcalc L =
     (case (if CGTcalc
            then (case same_day_tier t (TaxCalcTradeGroup_init t) L of
                    Inl err \<Rightarrow> Inl err
                  | Inr (g1, L1) \<Rightarrow> within_month_tier t g1 L1)
            else Inr (TaxCalcTradeGroup_init t, L)) of
        Inl err \<Rightarrow> Inl err
      | Inr (g2, L2) \<Rightarrow>
          (case s104_tier t g2 L2 of
             Inl err \<Rightarrow> Inl err
           | Inr (g3, L3) \<Rightarrow>
               if is_unmatched g3
               then Inl (NoMatch (py_int (count_unmatched g3)) (closing_trade g3))
               else Inr (g3, L3)))
   \<and> (\<forall>g L'. match_for_group t CGTcalc L = Inr (g, L') \<longrightarrow>
         (\<not> CGTcalc \<longrightarrow> same_day g = [] \<and> within_month g = []
              \<and> filter (\<lambda>u. \<not> Date u < Date t) L' = filter (\<lambda>u. \<not> Date u < Date t) L)
       \<and> (\<forall>p\<in>set (same_day g). Date p = Date t \<and> opposite_side p t)
       \<and> (\<forall>p\<in>set (within_month g).
             Date t < Date p \<and> Date p \<le> Date t + 30 \<and> opposite_side p t)
       \<and> sorted (map Date (within_month g))
       \<and> (CGTcalc \<longrightarrow> (\<exists>u\<in>set L. Date u = Date t \<and> opposite_side u t) \<longrightarrow> same_day g \<noteq> [])
       \<and> (CGTcalc \<longrightarrow> within_month g \<noteq> [] \<or> s104 g \<noteq> [] \<longrightarrow>
             (\<forall>u\<in>set L'. \<not> (Date u = Date t \<and> opposite_side u t)))
       \<and> (CGTcalc \<longrightarrow> s104 g \<noteq> [] \<longrightarrow>
             (\<forall>u\<in>set L'. \<not> (Date t < Date u \<and> Date u \<le> Date t + 30 \<and> opposite_side u t)))
       \<and> (if s104 g = []
           then filter (\<lambda>u. Date u < Date t) L' = filter (\<lambda>u. Date u < Date t) L
           else (\<exists>share. 0 \<le> share \<and> share \<le> 1
                   \<and> s104 g = map (\<lambda>u. fst (split_trade u share))
                                   (filter (\<lambda>u. Date u < Date t) L)
                   \<and> filter (\<lambda>u. Date u < Date t) L'
                       = (if share = 1 then []
                          else map (\<lambda>u. snd (split_trade u share))
                                   (filter (\<lambda>u. Date u < Date t) L))))
       \<and> final_position (s104 g)
           = - (Quantity t + final_position (same_day g) + final_position (within_month g))
       \<and> final_position L' + final_position (same_day g) + final_position (within_month g)
           + final_position (s104 g) = final_position L)"
proof (rule conjI)
  show "match_for_group t CGTcalc L =
     (case (if CGTcalc
            then (case same_day_tier t (TaxCalcTradeGroup_init t) L of
                    Inl err \<Rightarrow> Inl err
                  | Inr (g1, L1) \<Rightarrow> within_month_tier t g1 L1)
            else Inr (TaxCalcTradeGroup_init t, L)) of
        Inl err \<Rightarrow> Inl err
      | Inr (g2, L2) \<Rightarrow>
          (case s104_tier t g2 L2 of
             Inl err \<Rightarrow> Inl err
           | Inr (g3, L3) \<Rightarrow>
               if is_unmatched g3
               then Inl (NoMatch (py_int (count_unmatched g3)) (closing_trade g3))
               else Inr (g3, L3)))"
    by (rule match_for_group_unfold)
next
  show "\<forall>g L'. match_for_group t CGTcalc L = Inr (g, L') \<longrightarrow>
         (\<not> CGTcalc \<longrightarrow> same_day g = [] \<and> within_month g = []
              \<and> filter (\<lambda>u. \<not> Date u < Date t) L' = filter (\<lambda>u. \<not> Date u < Date t) L)
       \<and> (\<forall>p\<in>set (same_day g). Date p = Date t \<and> opposite_side p t)
       \<and> (\<forall>p\<in>set (within_month g).
             Date t < Date p \<and> Date p \<le> Date t + 30 \<and> opposite_side p t)
       \<and> sorted (map Date (within_month g))
       \<and> (CGTcalc \<longrightarrow> (\<exists>u\<in>set L. Date u = Date t \<and> opposite_side u t) \<longrightarrow> same_day g \<noteq> [])
       \<and> (CGTcalc \<longrightarrow> within_month g \<noteq> [] \<or> s104 g \<noteq> [] \<longrightarrow>
             (\<forall>u\<in>set L'. \<not> (Date u = Date t \<and> opposite_side u t)))
       \<and> (CGTcalc \<longrightarrow> s104 g \<noteq> [] \<longrightarrow>
             (\<forall>u\<in>set L'. \<not> (Date t < Date u \<and> Date u \<le> Date t + 30 \<and> opposite_side u t)))
       \<and> (if s104 g = []
           then filter (\<lambda>u. Date u < Date t) L' = filter (\<lambda>u. Date u < Date t) L
           else (\<exists>share. 0 \<le> share \<and> share \<le> 1
                   \<and> s104 g = map (\<lambda>u. fst (split_trade u share))
                                   (filter (\<lambda>u. Date u < Date t) L)
                   \<and> filter (\<lambda>u. Date u < Date t) L'
                       = (if share = 1 then []
                          else map (\<lambda>u. snd (split_trade u share))
                                   (filter (\<lambda>u. Date u < Date t) L))))
       \<and> final_position (s104 g)
           = - (Quantity t + final_position (same_day g) + final_position (within_month g))
       \<and> final_position L' + final_position (same_day g) + final_position (within_month g)
           + final_position (s104 g) = final_position L"
  proof (intro allI, rule impI)
    fix g L' assume m: "match_for_group t CGTcalc L = Inr (g, L')"
    note f = match_for_group_tiers[OF m]
    show "(\<not> CGTcalc \<longrightarrow> same_day g = [] \<and> within_month g = []
              \<and> filter (\<lambda>u. \<not> Date u < Date t) L' = filter (\<lambda>u. \<not> Date u < Date t) L)
       \<and> (\<forall>p\<in>set (same_day g). Date p = Date t \<and> opposite_side p t)
       \<and> (\<forall>p\<in>set (within_month g).
             Date t < Date p \<and> Date p \<le> Date t + 30 \<and> opposite_side p t)
       \<and> sorted (map Date (within_month g))
       \<and> (CGTcalc \<longrightarrow> (\<exists>u\<in>set L. Date u = Date t \<and> opposite_side u t) \<longrightarrow> same_day g \<noteq> [])
       \<and> (CGTcalc \<longrightarrow> within_month g \<noteq> [] \<or> s104 g \<noteq> [] \<longrightarrow>
             (\<forall>u\<in>set L'. \<not> (Date u = Date t \<and> opposite_side u t)))
       \<and> (CGTcalc \<longrightarrow> s104 g \<noteq> [] \<longrightarrow>
             (\<forall>u\<in>set L'. \<not> (Date t < Date u \<and> Date u \<le> Date t + 30 \<and> opposite_side u t)))
       \<and> (if s104 g = []
           then filter (\<lambda>u. Date u < Date t) L' = filter (\<lambda>u. Date u < Date t) L
           else (\<exists>share. 0 \<le> share \<and> share \<le> 1
                   \<and> s104 g = map (\<lambda>u. fst (split_trade u share))
                                   (filter (\<lambda>u. Date u < Date t) L)
                   \<and> filter (\<lambda>u. Date u < Date t) L'
                       = (if share = 1 then []
                          else map (\<lambda>u. snd (split_trade u share))
                                   (filter (\<lambda>u. Date u < Date t) L))))
       \<and> final_position (s104 g)
           = - (Quantity t + final_position (same_day g) + final_position (within_month g))
       \<and> final_position L' + final_position (same_day g) + final_position (within_month g)
           + final_position (s104 g) = final_position L"
      by (rule conjI[OF f(1) conjI[OF f(2) conjI[OF f(3) conjI[OF f(4) conjI[OF f(5)
            conjI[OF f(6) conjI[OF f(7) conjI[OF f(8) conjI[OF f(9) f(10)]]]]]]]]])
  qed
qed

theorem match_for_group_three_tiers_witness:
  "(case match_for_group example_closing True example_ledger of
      Inl err \<Rightarrow> False
    | Inr (g, L') \<Rightarrow>
        map Quantity (same_day g) = [30] \<and> map Date (same_day g) = [10]
        \<and> map Quantity (within_month g) = [40] \<and> map Date (within_month g) = [15]
        \<and> map Quantity (s104 g) = [80 / 3, 160 / 3] \<and> map Date (s104 g) = [1, 2]
        \<and> map Quantity L' = [220 / 3, 440 / 3]
        \<and> same_day g \<noteq> []
        \<and> final_position L' + final_position (same_day g) + final_position (within_month g)
            + final_position (s104 g) = final_position example_ledger)
   \<and> (case match_for_group example_closing False example_ledger of
        Inl err \<Rightarrow> False
      | Inr (g, L') \<Rightarrow>
          same_day g = [] \<and> within_month g = []
          \<and> map Quantity (s104 g) = [50, 100] \<and> map Date (s104 g) = [1, 2]
          \<and> map Quantity L' = [50, 100, 30, 40]
          \<and> final_position (s104 g) = 150)"
proof -
  note on = match_for_group_three_tiers[of example_closing True example_ledger]
  note off = match_for_group_three_tiers[of example_closing False example_ledger]
  have ev_on: "case match_for_group example_closing True example_ledger of
      Inl err \<Rightarrow> False
    | Inr (g, L') \<Rightarrow>
        map Quantity (same_day g) = [30] \<and> map Date (same_day g) = [10]
        \<and> map Quantity (within_month g) = [40] \<and> map Date (within_month g) = [15]
        \<and> map Quantity (s104 g) = [80 / 3, 160 / 3] \<and> map Date (s104 g) = [1, 2]
        \<and> map Quantity L' = [220 / 3, 440 / 3]"
    unfolding on[THEN conjunct1] by code_simp
  have ev_off: "case match_for_group example_closing False example_ledger of
        Inl err \<Rightarrow> False
      | Inr (g, L') \<Rightarrow>
          map Quantity (s104 g) = [50, 100] \<and> map Date (s104 g) = [1, 2]
          \<and> map Quantity L' = [50, 100, 30, 40]"
    unfolding off[THEN conjunct1] by code_simp
  obtain g L' where m: "match_for_group example_closing True example_ledger = Inr (g, L')"
    using ev_on by (cases "match_for_group example_closing True example_ledger") auto
  obtain h K' where n: "match_for_group example_closing False example_ledger = Inr (h, K')"
    using ev_off by (cases "match_for_group example_closing False example_ledger") auto
  note r = on[THEN conjunct2, rule_format, OF m]
  note q = off[THEN conjunct2, rule_format, OF n]
  have cand: "\<exists>u\<in>set example_ledger. Date u = Date example_closing \<and> opposite_side u example_closing"
    by (simp add: example_ledger_def example_closing_def trade_def opposite_side_def)
  have taken: "same_day g \<noteq> []"
    using r[THEN conjunct2, THEN conjunct2, THEN conjunct2, THEN conjunct2, THEN conjunct1]
      cand by simp
  have cons: "final_position L' + final_position (same_day g) + final_position (within_month g)
            + final_position (s104 g) = final_position example_ledger"
    using r by (elim conjE)
  have none: "same_day h = [] \<and> within_month h = []"
    using q[THEN conjunct1] by simp
  have tot: "final_position (s104 h) = 150"
    using q none by (simp add: example_closing_def trade_def final_position_def)
  from ev_on m taken cons have a: "case match_for_group example_closing True example_ledger of
      Inl err \<Rightarrow> False
    | Inr (g, L') \<Rightarrow>
        map Quantity (same_day g) = [30] \<and> map Date (same_day g) = [10]
        \<and> map Quantity (within_month g) = [40] \<and> map Date (within_month g) = [15]
        \<and> map Quantity (s104 g) = [80 / 3, 160 / 3] \<and> map Date (s104 g) = [1, 2]
        \<and> map Quantity L' = [220 / 3, 440 / 3]
        \<and> same_day g \<noteq> []
        \<and> final_position L' + final_position (same_day g) + final_position (within_month g)
            + final_position (s104 g) = final_position example_ledger"
    by simp
  from ev_off n none tot have b: "case match_for_group example_closing False example_ledger of
        Inl err \<Rightarrow> False
      | Inr (g, L') \<Rightarrow>
          same_day g = [] \<and> within_month g = []
          \<and> map Quantity (s104 g) = [50, 100] \<and> map Date (s104 g) = [1, 2]
          \<and> map Quantity L' = [50, 100, 30, 40]
          \<and> final_position (s104 g) = 150"
    by simp
  from a b show ?thesis by (rule conjI)
qed

section \<open>Conservation\<close>

text \<open>
  Claim C2. Every group that \<open>match_for_group\<close> returns is fully matched: \<open>is_unmatched\<close> is
  false, its closing trade is the trade it was given, and the quantities of its same-day,
  within-month and S104 pieces sum to the closing trade's quantity in magnitude. Hence
  after a successful \<open>allocate_trades\<close> on an element whose recorded groups (if any) were
  fully matched, every recorded group is fully matched.
\<close>

theorem matched_groups_fully_matched:
  "(\<forall>g L'. match_for_group t CGTcalc L = Inr (g, L') \<longrightarrow>
       \<not> is_unmatched g \<and> closing_trade g = t
       \<and> \<bar>final_position (same_day g) + final_position (within_month g)
            + final_position (s104 g)\<bar> = \<bar>Quantity t\<bar>)
   \<and> (\<forall>e'. allocate_trades e CGTcalc = Inr e' \<longrightarrow>
         (\<forall>(k, g)\<in>set (matched e). \<not> is_unmatched g) \<longrightarrow>
         (\<forall>(k, g)\<in>set (matched e').
            \<not> is_unmatched g
            \<and> \<bar>final_position (same_day g) + final_position (within_month g)
                 + final_position (s104 g)\<bar> = \<bar>Quantity (closing_trade g)\<bar>))"
proof -
  have one: "\<not> is_unmatched g \<and> closing_trade g = t
       \<and> \<bar>final_position (same_day g) + final_position (within_month g)
            + final_position (s104 g)\<bar> = \<bar>Quantity t\<bar>"
    if "match_for_group t CGTcalc L = Inr (g, L')" for g L'
  proof -
    from that have a: "apply_tiers t CGTcalc L = Inr (g, L')" and m: "\<not> is_unmatched g"
      by (simp_all add: match_for_group_Inr)
    from apply_tiers_closing_trade[OF a] matched_magnitude(2)[OF m] m show ?thesis by simp
  qed
  have all: "\<not> is_unmatched g
            \<and> \<bar>final_position (same_day g) + final_position (within_month g)
                 + final_position (s104 g)\<bar> = \<bar>Quantity (closing_trade g)\<bar>"
    if run: "allocate_trades e CGTcalc = Inr e'"
      and old: "\<forall>(k, g)\<in>set (matched e). \<not> is_unmatched g"
      and mem: "(k, g) \<in> set (matched e')" for e' k g
  proof -
    from allocate_trades_groups[OF run mem] old have "\<not> is_unmatched g"
      by (auto simp: match_for_group_Inr)
    with matched_magnitude(2) show ?thesis by blast
  qed
  from one all show ?thesis by blast
qed

theorem matched_groups_fully_matched_witness:
  "(case match_for_group example_closing True example_ledger of
      Inl err \<Rightarrow> False
    | Inr (g, L') \<Rightarrow>
        \<not> is_unmatched g \<and> closing_trade g = example_closing
        \<and> \<bar>final_position (same_day g) + final_position (within_month g)
             + final_position (s104 g)\<bar> = 150)
   \<and> (case allocate_trades \<lparr>matched = [], unmatched = example_closing # example_ledger\<rparr> True of
        Inl err \<Rightarrow> False
      | Inr e' \<Rightarrow> map fst (matched e') = [1]
                  \<and> list_all (\<lambda>(k, g). \<not> is_unmatched g) (matched e'))"
proof -
  note inst = matched_groups_fully_matched
                [of example_closing True example_ledger
                    "\<lparr>matched = [], unmatched = example_closing # example_ledger\<rparr>"]
  obtain g L' where m: "match_for_group example_closing True example_ledger = Inr (g, L')"
    by (cases "match_for_group example_closing True example_ledger") (code_simp, auto)
  with inst have "\<not> is_unmatched g \<and> closing_trade g = example_closing
       \<and> \<bar>final_position (same_day g) + final_position (within_month g)
            + final_position (s104 g)\<bar> = \<bar>Quantity example_closing\<bar>"
    by blast
  then have a: "\<not> is_unmatched g \<and> closing_trade g = example_closing
        \<and> \<bar>final_position (same_day g) + final_position (within_month g)
             + final_position (s104 g)\<bar> = 150"
    by (simp add: example_closing_def trade_def)
  obtain e' where r: "allocate_trades \<lparr>matched = [], unmatched = example_closing # example_ledger\<rparr>
                        True = Inr e'"
    by (cases "allocate_trades \<lparr>matched = [], unmatched = example_closing # example_ledger\<rparr> True")
       (code_simp, auto)
  have old: "\<forall>(k, g)\<in>set (matched \<lparr>matched = [], unmatched = example_closing # example_ledger\<rparr>).
               \<not> is_unmatched g"
    by simp
  from inst r old have "\<forall>(k, g)\<in>set (matched e'). \<not> is_unmatched g" by blast
  then have b: "list_all (\<lambda>(k, g). \<not> is_unmatched g) (matched e')"
    by (simp add: list_all_iff)
  have "case allocate_trades \<lparr>matched = [], unmatched = example_closing # example_ledger\<rparr> True of
          Inl err \<Rightarrow> False
        | Inr e' \<Rightarrow> map fst (matched e') = [1]"
    by code_simp
  with r have c: "map fst (matched e') = [1]" by simp
  from m a r b c show ?thesis by simp
qed

section \<open>An unmatchable closing trade ends the run\<close>

lemma py_int_of_int: "py_int (of_int n) = n"
  by (simp add: py_int_def)

text \<open>
  Claim C5. When the tiers have run and the group is still unmatched, \<open>match_for_group\<close>
  raises: the outcome is the exception together with the printed unmatched quantity (as
  \<^verbatim>\<open>%d\<close> formats it: the quantity itself when it is a whole number) and the closing trade
  given. When the tiers leave the group fully matched, the group is returned. An exception
  inside a tier leaves the function as it is. So a returned group is never partially
  matched: its pieces sum to exactly the closing quantity, with the opposite sign.
\<close>

theorem unmatchable_closing_trade_is_fatal:
  "(\<forall>g L'. apply_tiers t CGTcalc L = Inr (g, L') \<longrightarrow> is_unmatched g \<longrightarrow>
       match_for_group t CGTcalc L = Inl (NoMatch (py_int (count_unmatched g)) t))
   \<and> (\<forall>g L'. apply_tiers t CGTcalc L = Inr (g, L') \<longrightarrow> \<not> is_unmatched g \<longrightarrow>
       match_for_group t CGTcalc L = Inr (g, L'))
   \<and> (\<forall>err. apply_tiers t CGTcalc L = Inl err \<longrightarrow> match_for_group t CGTcalc L = Inl err)
   \<and> (\<forall>g L'. match_for_group t CGTcalc L = Inr (g, L') \<longrightarrow>
       \<not> is_unmatched g
       \<and> final_position (same_day g) + final_position (within_month g)
           + final_position (s104 g) = - Quantity t)
   \<and> (\<forall>n. py_int (of_int n) = n)"
proof -
  have a: "match_for_group t CGTcalc L = Inl (NoMatch (py_int (count_unmatched g)) t)"
    if "apply_tiers t CGTcalc L = Inr (g, L')" "is_unmatched g" for g L'
    using that apply_tiers_closing_trade[OF that(1)]
    by (simp add: match_for_group_def final_check_def)
  have b: "match_for_group t CGTcalc L = Inr (g, L')"
    if "apply_tiers t CGTcalc L = Inr (g, L')" "\<not> is_unmatched g" for g L'
    using that by (simp add: match_for_group_Inr)
  have c: "match_for_group t CGTcalc L = Inl err" if "apply_tiers t CGTcalc L = Inl err" for err
    using that by (simp add: match_for_group_def)
  have d: "\<not> is_unmatched g
       \<and> final_position (same_day g) + final_position (within_month g)
           + final_position (s104 g) = - Quantity t"
    if "match_for_group t CGTcalc L = Inr (g, L')" for g L'
  proof -
    from that have x: "apply_tiers t CGTcalc L = Inr (g, L')" and m: "\<not> is_unmatched g"
      by (simp_all add: match_for_group_Inr)
    from matched_magnitude(1)[OF m] apply_tiers_closing_trade[OF x] m show ?thesis by simp
  qed
  from a b c d py_int_of_int show ?thesis by blast
qed

theorem unmatchable_closing_trade_is_fatal_witness:
  "match_for_group (trade ''A'' 1 (-100) 12 0 Close) False [trade ''A'' 20 100 9 0 Open]
     = Inl (NoMatch (-100) (trade ''A'' 1 (-100) 12 0 Close))
   \<and> match_for_group (trade ''A'' 10 (-100) 12 0 Close) True [trade ''A'' 10 30 9 0 Open]
       = Inl (NoMatch (-70) (trade ''A'' 10 (-100) 12 0 Close))
   \<and> match_for_group (trade ''A'' 10 (-100) 12 0 Close) True
         [trade ''A'' 1 10 9 0 Open, trade ''A'' 10 30 9 0 Open]
       = Inl ArithmeticError
   \<and> (case match_for_group example_closing True example_ledger of
        Inl err \<Rightarrow> False
      | Inr (g, L') \<Rightarrow> final_position (same_day g) + final_position (within_month g)
                         + final_position (s104 g) = 150)"
proof -
  let ?t1 = "trade ''A'' 1 (-100) 12 0 Close" and ?L1 = "[trade ''A'' 20 100 9 0 Open]"
  let ?t2 = "trade ''A'' 10 (-100) 12 0 Close" and ?L2 = "[trade ''A'' 10 30 9 0 Open]"
  let ?L3 = "[trade ''A'' 1 10 9 0 Open, trade ''A'' 10 30 9 0 Open]"
  have t1: "apply_tiers ?t1 False ?L1 = Inr (TaxCalcTradeGroup_init ?t1, ?L1)" by code_simp
  have u1: "is_unmatched (TaxCalcTradeGroup_init ?t1)" by code_simp
  have q1: "py_int (count_unmatched (TaxCalcTradeGroup_init ?t1)) = - 100" by code_simp
  from unmatchable_closing_trade_is_fatal[of ?t1 False ?L1] t1 u1
  have "match_for_group ?t1 False ?L1
          = Inl (NoMatch (py_int (count_unmatched (TaxCalcTradeGroup_init ?t1))) ?t1)"
    by blast
  then have a: "match_for_group ?t1 False ?L1 = Inl (NoMatch (-100) ?t1)"
    by (simp only: q1)
  let ?g2 = "(TaxCalcTradeGroup_init ?t2)\<lparr>same_day := [trade ''A'' 10 30 9 0 Open]\<rparr>"
  have t2: "apply_tiers ?t2 True ?L2 = Inr (?g2, [])" by code_simp
  have u2: "is_unmatched ?g2" by code_simp
  have q2: "py_int (count_unmatched ?g2) = - 70" by code_simp
  from unmatchable_closing_trade_is_fatal[of ?t2 True ?L2] t2 u2
  have "match_for_group ?t2 True ?L2 = Inl (NoMatch (py_int (count_unmatched ?g2)) ?t2)"
    by blast
  then have b: "match_for_group ?t2 True ?L2 = Inl (NoMatch (-70) ?t2)"
    by (simp only: q2)
  have t3: "apply_tiers ?t2 True ?L3 = Inl ArithmeticError" by code_simp
  from unmatchable_closing_trade_is_fatal[of ?t2 True ?L3] t3
  have c: "match_for_group ?t2 True ?L3 = Inl ArithmeticError" by blast
  obtain g L' where m: "match_for_group example_closing True example_ledger = Inr (g, L')"
    by (cases "match_for_group example_closing True example_ledger") (code_simp, auto)
  with unmatchable_closing_trade_is_fatal[of example_closing True example_ledger]
  have "final_position (same_day g) + final_position (within_month g)
          + final_position (s104 g) = - Quantity example_closing"
    by blast
  then have "final_position (same_day g) + final_position (within_month g)
          + final_position (s104 g) = 150"
    by (simp add: example_closing_def trade_def)
  with m have d: "case match_for_group example_closing True example_ledger of
        Inl err \<Rightarrow> False
      | Inr (g, L') \<Rightarrow> final_position (same_day g) + final_position (within_month g)
                         + final_position (s104 g) = 150"
    by simp
  from a b c d show ?thesis by blast
qed

section \<open>Closing trades are matched oldest first\<close>

text \<open>
  Claim C3. A pop takes a trade of type Close that no other closing trade of the ledger
  precedes in date, and finds none only when the ledger holds no closing trade. Started on
  a dict whose keys are below the counter, the first loop appends one group per popped
  closing trade, under the consecutive numbers from the counter on; the new groups' closing
  trades are of type Close, are lots of the ledger, and come in non-decreasing date order;
  the loop ends with no closing trade left in the ledger. The second loop also only
  appends, under the next consecutive numbers. So the dict only grows, and after
  \<open>allocate_trades\<close> on a fresh element its keys are 1, 2, ... in insertion order, the
  groups of the first loop first and in date order.
\<close>

theorem closing_trades_oldest_first:
  "(\<forall>c L1. pop_earliest_closing_trade L = (Some c, L1) \<longrightarrow>
       c \<in> set L \<and> tradetype c = Close
       \<and> (\<forall>u\<in>set L. tradetype u = Close \<longrightarrow> Date c \<le> Date u)
       \<and> length L1 + 1 = length L)
   \<and> (\<forall>L0. pop_earliest_closing_trade L = (None, L0) \<longrightarrow>
       L0 = L \<and> (\<forall>u\<in>set L. tradetype u \<noteq> Close))
   \<and> (\<forall>M n L' M' n'. (\<forall>k\<in>fst ` set M. k < n) \<longrightarrow>
         closing_loop CGTcalc L M n = Inr (L', M', n') \<longrightarrow>
         (\<exists>new. M' = M @ new \<and> map fst new = [n..n' - 1]
            \<and> sorted (map (\<lambda>(k, g). Date (closing_trade g)) new)
            \<and> (\<forall>(k, g)\<in>set new. tradetype (closing_trade g) = Close
                  \<and> lot_key (closing_trade g) \<in> lot_key ` set L)
            \<and> (\<forall>u\<in>set L'. tradetype u \<noteq> Close)))
   \<and> (\<forall>M n L' M' n'. (\<forall>k\<in>fst ` set M. k < n) \<longrightarrow>
         leftover_loop CGTcalc L M n = Inr (L', M', n') \<longrightarrow>
         (\<exists>new. M' = M @ new \<and> map fst new = [n..n' - 1]))
   \<and> (\<forall>e'. matched e = [] \<longrightarrow> allocate_trades e CGTcalc = Inr e' \<longrightarrow>
         (\<exists>L1 M1 n1 new n2. closing_loop CGTcalc (unmatched e) [] 1 = Inr (L1, M1, n1)
            \<and> matched e' = M1 @ new \<and> map fst M1 = [1..n1 - 1]
            \<and> map fst (matched e') = [1..n2 - 1]
            \<and> sorted (map (\<lambda>(k, g). Date (closing_trade g)) M1)))"
proof -
  have c1: "\<forall>c L1. pop_earliest_closing_trade L = (Some c, L1) \<longrightarrow>
       c \<in> set L \<and> tradetype c = Close
       \<and> (\<forall>u\<in>set L. tradetype u = Close \<longrightarrow> Date c \<le> Date u)
       \<and> length L1 + 1 = length L"
    using pop_earliest_closing_trade_Some by blast
  have c2: "\<forall>L0. pop_earliest_closing_trade L = (None, L0) \<longrightarrow>
       L0 = L \<and> (\<forall>u\<in>set L. tradetype u \<noteq> Close)"
    using pop_earliest_closing_trade_None by blast
  have c3: "\<forall>M n L' M' n'. (\<forall>k\<in>fst ` set M. k < n) \<longrightarrow>
         closing_loop CGTcalc L M n = Inr (L', M', n') \<longrightarrow>
         (\<exists>new. M' = M @ new \<and> map fst new = [n..n' - 1]
            \<and> sorted (map (\<lambda>(k, g). Date (closing_trade g)) new)
            \<and> (\<forall>(k, g)\<in>set new. tradetype (closing_trade g) = Close
                  \<and> lot_key (closing_trade g) \<in> lot_key ` set L)
            \<and> (\<forall>u\<in>set L'. tradetype u \<noteq> Close))"
  proof (intro allI impI)
    fix M n L' M' n'
    assume k: "\<forall>k\<in>fst ` set M. k < n" and r: "closing_loop CGTcalc L M n = Inr (L', M', n')"
    from closing_loop_result[OF r k]
    show "\<exists>new. M' = M @ new \<and> map fst new = [n..n' - 1]
            \<and> sorted (map (\<lambda>(k, g). Date (closing_trade g)) new)
            \<and> (\<forall>(k, g)\<in>set new. tradetype (closing_trade g) = Close
                  \<and> lot_key (closing_trade g) \<in> lot_key ` set L)
            \<and> (\<forall>u\<in>set L'. tradetype u \<noteq> Close)"
      by blast
  qed
  have c4: "\<forall>M n L' M' n'. (\<forall>k\<in>fst ` set M. k < n) \<longrightarrow>
         leftover_loop CGTcalc L M n = Inr (L', M', n') \<longrightarrow>
         (\<exists>new. M' = M @ new \<and> map fst new = [n..n' - 1])"
  proof (intro allI impI)
    fix M n L' M' n'
    assume k: "\<forall>k\<in>fst ` set M. k < n" and r: "leftover_loop CGTcalc L M n = Inr (L', M', n')"
    from leftover_loop_result[OF r k]
    show "\<exists>new. M' = M @ new \<and> map fst new = [n..n' - 1]" by blast
  qed
  have c5: "\<forall>e'. matched e = [] \<longrightarrow> allocate_trades e CGTcalc = Inr e' \<longrightarrow>
         (\<exists>L1 M1 n1 new n2. closing_loop CGTcalc (unmatched e) [] 1 = Inr (L1, M1, n1)
            \<and> matched e' = M1 @ new \<and> map fst M1 = [1..n1 - 1]
            \<and> map fst (matched e') = [1..n2 - 1]
            \<and> sorted (map (\<lambda>(k, g). Date (closing_trade g)) M1))"
    by (intro allI impI) (rule allocate_trades_fresh)
  show ?thesis by (rule conjI[OF c1 conjI[OF c2 conjI[OF c3 conjI[OF c4 c5]]]])
qed

theorem closing_trades_oldest_first_witness:
  "(case pop_earliest_closing_trade example_two_closes of
      (None, L1) \<Rightarrow> False
    | (Some c, L1) \<Rightarrow> Date c = 5 \<and> tradetype c = Close \<and> length L1 = 2)
   \<and> (case closing_loop False example_two_closes [] 1 of
        Inl err \<Rightarrow> False
      | Inr (L', M', n') \<Rightarrow>
          map fst M' = [1, 2] \<and> map (\<lambda>(k, g). Date (closing_trade g)) M' = [5, 9]
          \<and> sorted (map (\<lambda>(k, g). Date (closing_trade g)) M') \<and> L' = [] \<and> n' = 3)
   \<and> (case allocate_trades \<lparr>matched = [], unmatched = example_two_closes\<rparr> False of
        Inl err \<Rightarrow> False
      | Inr e' \<Rightarrow> map fst (matched e') = [1, 2] \<and> unmatched e' = [])"
proof -
  note inst = closing_trades_oldest_first
                [of example_two_closes False "\<lparr>matched = [], unmatched = example_two_closes\<rparr>"]
  have a: "case pop_earliest_closing_trade example_two_closes of
      (None, L1) \<Rightarrow> False
    | (Some c, L1) \<Rightarrow> Date c = 5 \<and> tradetype c = Close \<and> length L1 = 2"
    by code_simp
  obtain L' M' n' where r: "closing_loop False example_two_closes [] 1 = Inr (L', M', n')"
    by (cases "closing_loop False example_two_closes [] 1") (code_simp, auto)
  have k0: "\<forall>k\<in>fst ` set ([] :: (int \<times> TaxCalcTradeGroup) list). k < 1" by simp
  from inst k0 r have "\<exists>new. M' = [] @ new \<and> map fst new = [1..n' - 1]
            \<and> sorted (map (\<lambda>(k, g). Date (closing_trade g)) new)
            \<and> (\<forall>(k, g)\<in>set new. tradetype (closing_trade g) = Close
                  \<and> lot_key (closing_trade g) \<in> lot_key ` set example_two_closes)
            \<and> (\<forall>u\<in>set L'. tradetype u \<noteq> Close)"
    by blast
  then have srt: "sorted (map (\<lambda>(k, g). Date (closing_trade g)) M')" by auto
  have "case closing_loop False example_two_closes [] 1 of
        Inl err \<Rightarrow> False
      | Inr (L', M', n') \<Rightarrow>
          map fst M' = [1, 2] \<and> map (\<lambda>(k, g). Date (closing_trade g)) M' = [5, 9]
          \<and> L' = [] \<and> n' = 3"
    by code_simp
  with r srt have b: "case closing_loop False example_two_closes [] 1 of
        Inl err \<Rightarrow> False
      | Inr (L', M', n') \<Rightarrow>
          map fst M' = [1, 2] \<and> map (\<lambda>(k, g). Date (closing_trade g)) M' = [5, 9]
          \<and> sorted (map (\<lambda>(k, g). Date (closing_trade g)) M') \<and> L' = [] \<and> n' = 3"
    by simp
  have c: "case allocate_trades \<lparr>matched = [], unmatched = example_two_closes\<rparr> False of
        Inl err \<Rightarrow> False
      | Inr e' \<Rightarrow> map fst (matched e') = [1, 2] \<and> unmatched e' = []"
    by code_simp
  from a b c show ?thesis by blast
qed

section \<open>Leftover positions\<close>

text \<open>
  Claim C4. After the first loop the ledger holds no closing trade. If it is empty or its
  net position is not zero, \<open>allocate_trades\<close> returns it as it is, with the dict of the first
  loop and no error. If it is not empty and its net position is zero, the result is that
  of the second loop. While the ledger is not empty, that loop takes the last trade of
  the date-sorted ledger (a trade of the ledger that none follows in date), makes it a
  closing trade and matches it with \<open>match_for_group\<close> against the rest, records the group
  under the counter and goes on; an exception of the match ends the run. When the loop
  returns, the ledger is empty.
\<close>

theorem leftover_position_resolution:
  "(\<forall>L1 M1 n1. closing_loop CGTcalc (unmatched e) (matched e) 1 = Inr (L1, M1, n1) \<longrightarrow>
       (\<forall>u\<in>set L1. tradetype u \<noteq> Close)
       \<and> (L1 = [] \<or> final_position L1 \<noteq> 0 \<longrightarrow>
            allocate_trades e CGTcalc = Inr \<lparr>matched = M1, unmatched = L1\<rparr>)
       \<and> (L1 \<noteq> [] \<and> final_position L1 = 0 \<longrightarrow>
            allocate_trades e CGTcalc =
              (case leftover_loop CGTcalc L1 M1 n1 of
                 Inl err \<Rightarrow> Inl err
               | Inr (L2, M2, n2) \<Rightarrow> Inr \<lparr>matched = M2, unmatched = L2\<rparr>)))
   \<and> (\<forall>L M n. L \<noteq> [] \<longrightarrow>
         leftover_loop CGTcalc L M n =
           (case match_for_group ((last (date_sort L))\<lparr>tradetype := Close\<rparr>) CGTcalc
                   (butlast (date_sort L)) of
              Inl err \<Rightarrow> Inl err
            | Inr (g, L2) \<Rightarrow> leftover_loop CGTcalc L2 (AList.update n g M) (n + 1)))
   \<and> (\<forall>M n. leftover_loop CGTcalc [] M n = Inr ([], M, n))
   \<and> (\<forall>L. L \<noteq> [] \<longrightarrow>
         last (date_sort L) \<in> set L \<and> (\<forall>u\<in>set L. Date u \<le> Date (last (date_sort L)))
         \<and> length (butlast (date_sort L)) + 1 = length L
         \<and> set (butlast (date_sort L)) \<subseteq> set L)
   \<and> (\<forall>L M n L' M' n'. leftover_loop CGTcalc L M n = Inr (L', M', n') \<longrightarrow> L' = [])"
proof -
  have c1: "\<forall>L1 M1 n1. closing_loop CGTcalc (unmatched e) (matched e) 1 = Inr (L1, M1, n1) \<longrightarrow>
       (\<forall>u\<in>set L1. tradetype u \<noteq> Close)
       \<and> (L1 = [] \<or> final_position L1 \<noteq> 0 \<longrightarrow>
            allocate_trades e CGTcalc = Inr \<lparr>matched = M1, unmatched = L1\<rparr>)
       \<and> (L1 \<noteq> [] \<and> final_position L1 = 0 \<longrightarrow>
            allocate_trades e CGTcalc =
              (case leftover_loop CGTcalc L1 M1 n1 of
                 Inl err \<Rightarrow> Inl err
               | Inr (L2, M2, n2) \<Rightarrow> Inr \<lparr>matched = M2, unmatched = L2\<rparr>))"
  proof (intro allI impI)
    fix L1 M1 n1
    assume r: "closing_loop CGTcalc (unmatched e) (matched e) 1 = Inr (L1, M1, n1)"
    have "\<forall>u\<in>set L1. tradetype u \<noteq> Close" by (rule closing_loop_no_close[OF r])
    with allocate_trades_phases[OF r]
    show "(\<forall>u\<in>set L1. tradetype u \<noteq> Close)
       \<and> (L1 = [] \<or> final_position L1 \<noteq> 0 \<longrightarrow>
            allocate_trades e CGTcalc = Inr \<lparr>matched = M1, unmatched = L1\<rparr>)
       \<and> (L1 \<noteq> [] \<and> final_position L1 = 0 \<longrightarrow>
            allocate_trades e CGTcalc =
              (case leftover_loop CGTcalc L1 M1 n1 of
                 Inl err \<Rightarrow> Inl err
               | Inr (L2, M2, n2) \<Rightarrow> Inr \<lparr>matched = M2, unmatched = L2\<rparr>))"
      by blast
  qed
  have c2: "\<forall>L M n. L \<noteq> [] \<longrightarrow>
         leftover_loop CGTcalc L M n =
           (case match_for_group ((last (date_sort L))\<lparr>tradetype := Close\<rparr>) CGTcalc
                   (butlast (date_sort L)) of
              Inl err \<Rightarrow> Inl err
            | Inr (g, L2) \<Rightarrow> leftover_loop CGTcalc L2 (AList.update n g M) (n + 1))"
    by (intro allI impI) (rule leftover_loop_step)
  have c3: "\<forall>M n. leftover_loop CGTcalc [] M n = Inr ([], M, n)"
    by (intro allI) (rule leftover_loop_Nil)
  have c4: "\<forall>L. L \<noteq> [] \<longrightarrow>
         last (date_sort L) \<in> set L \<and> (\<forall>u\<in>set L. Date u \<le> Date (last (date_sort L)))
         \<and> length (butlast (date_sort L)) + 1 = length L
         \<and> set (butlast (date_sort L)) \<subseteq> set L"
    using date_sort_last by blast
  have c5: "\<forall>L M n L' M' n'. leftover_loop CGTcalc L M n = Inr (L', M', n') \<longrightarrow> L' = []"
    by (intro allI impI) (rule leftover_loop_empties)
  show ?thesis by (rule conjI[OF c1 conjI[OF c2 conjI[OF c3 conjI[OF c4 c5]]]])
qed

theorem leftover_position_resolution_witness:
  "(case allocate_trades
           \<lparr>matched = [],
            unmatched = [trade ''A'' 1 100 10 4 Open, trade ''A'' 5 (-100) 11 8 Open]\<rparr> True of
      Inl err \<Rightarrow> False
    | Inr e' \<Rightarrow>
        unmatched e' = [] \<and> map fst (matched e') = [1]
        \<and> map (\<lambda>(k, g). (Date (closing_trade g), tradetype (closing_trade g))) (matched e')
            = [(5, Close)])
   \<and> allocate_trades
        \<lparr>matched = [],
         unmatched = [trade ''A'' 1 100 10 4 Open, trade ''A'' 5 (-60) 11 8 Open]\<rparr> True
       = Inr \<lparr>matched = [],
              unmatched = [trade ''A'' 1 100 10 4 Open, trade ''A'' 5 (-60) 11 8 Open]\<rparr>"
proof -
  let ?Z = "[trade ''A'' 1 100 10 4 Open, trade ''A'' 5 (-100) 11 8 Open]"
  let ?N = "[trade ''A'' 1 100 10 4 Open, trade ''A'' 5 (-60) 11 8 Open]"
  have rz: "closing_loop True (unmatched \<lparr>matched = [], unmatched = ?Z\<rparr>)
              (matched \<lparr>matched = [], unmatched = ?Z\<rparr>) 1 = Inr (?Z, [], 1)"
    by code_simp
  have hz: "?Z \<noteq> [] \<and> final_position ?Z = 0" by code_simp
  note pz = leftover_position_resolution
              [of True "\<lparr>matched = [], unmatched = ?Z\<rparr>", THEN conjunct1, rule_format, OF rz]
  from pz[THEN conjunct2, THEN conjunct2, THEN mp, OF hz]
  have ez: "allocate_trades \<lparr>matched = [], unmatched = ?Z\<rparr> True =
              (case leftover_loop True ?Z [] 1 of
                 Inl err \<Rightarrow> Inl err
               | Inr (L2, M2, n2) \<Rightarrow> Inr \<lparr>matched = M2, unmatched = L2\<rparr>)" .
  have a: "case allocate_trades \<lparr>matched = [], unmatched = ?Z\<rparr> True of
      Inl err \<Rightarrow> False
    | Inr e' \<Rightarrow>
        unmatched e' = [] \<and> map fst (matched e') = [1]
        \<and> map (\<lambda>(k, g). (Date (closing_trade g), tradetype (closing_trade g))) (matched e')
            = [(5, Close)]"
    unfolding ez by code_simp
  have rn: "closing_loop True (unmatched \<lparr>matched = [], unmatched = ?N\<rparr>)
              (matched \<lparr>matched = [], unmatched = ?N\<rparr>) 1 = Inr (?N, [], 1)"
    by code_simp
  have hn: "?N = [] \<or> final_position ?N \<noteq> 0" by code_simp
  note pn = leftover_position_resolution
              [of True "\<lparr>matched = [], unmatched = ?N\<rparr>", THEN conjunct1, rule_format, OF rn]
  from pn[THEN conjunct2, THEN conjunct1, THEN mp, OF hn]
  have b: "allocate_trades \<lparr>matched = [], unmatched = ?N\<rparr> True
             = Inr \<lparr>matched = [], unmatched = ?N\<rparr>" .
  from a b show ?thesis by (rule conjI)
qed

section \<open>Determinism\<close>



end
